theory Spec2Isabelle
  imports Complex_Main "HOL-Library.Word" "HOL-Library.Signed_Division"
begin

section \<open>Integer arithmetic of the target\<close>

text \<open>
  The firmware computes on 32-bit \<^verbatim>\<open>int\<close>. A value of that type is modelled as an
  \<^typ>\<open>int\<close> between \<open>INT_MIN\<close> and \<open>INT_MAX\<close>; an operation whose mathematical
  result leaves that range, or that divides by zero, has no defined result in C++
  and is a \<open>fault\<close> of the model, as is a read past the end of an array. The remainder \<^verbatim>\<open>%\<close> truncates towards zero
  (\<open>smod\<close>), unlike \<open>mod\<close>.
\<close>

datatype fault = DivideByZero | SignedOverflow | OutOfBounds

definition INT_MIN :: int where
  "INT_MIN = - 2147483648"

definition INT_MAX :: int where
  "INT_MAX = 2147483647"

definition in_int_range :: "int \<Rightarrow> bool" where
  "in_int_range v = (INT_MIN \<le> v \<and> v \<le> INT_MAX)"

definition int_add :: "int \<Rightarrow> int \<Rightarrow> fault + int" where
  "int_add a b = (if in_int_range (a + b) then Inr (a + b) else Inl SignedOverflow)"

definition int_sub :: "int \<Rightarrow> int \<Rightarrow> fault + int" where
  "int_sub a b = (if in_int_range (a - b) then Inr (a - b) else Inl SignedOverflow)"

definition int_rem :: "int \<Rightarrow> int \<Rightarrow> fault + int" where
  "int_rem a b =
     (if b = 0 then Inl DivideByZero
      else if a = INT_MIN \<and> b = - 1 then Inl SignedOverflow
      else Inr (a smod b))"

section \<open>Edge detector\<close>

text \<open>
  \<^verbatim>\<open>int getPreviousIndex(const int currentIndex, const int size)\<close> returns
  \<^verbatim>\<open>(currentIndex + size - 1) % size\<close>: the sum first, then the decrement, then the
  remainder.
\<close>

definition getPreviousIndex :: "int \<Rightarrow> int \<Rightarrow> fault + int" where
  "getPreviousIndex currentIndex size' =
     (case int_add currentIndex size' of
        Inl e \<Rightarrow> Inl e
      | Inr s \<Rightarrow>
          (case int_sub s 1 of
             Inl e \<Rightarrow> Inl e
           | Inr d \<Rightarrow> int_rem d size'))"

text \<open>
  Modelled from the spec: the level type and the phase table are declared outside
  \<^verbatim>\<open>trigger_emulator_algo.cpp\<close>. A level is binary (low or high; the source names the
  high state \<^verbatim>\<open>TriggerValue::RISE\<close>). A phase table (\<^verbatim>\<open>MultiChannelStateSequence\<close>)
  offers its phase count, an unsigned 16-bit field that the source widens to
  \<^verbatim>\<open>int\<close>, and the accessor \<^verbatim>\<open>getChannelState(channelIndex, phaseIndex)\<close>, taken
  here as a parameter of the table.
\<close>

datatype TriggerValue = FALL | RISE

type_synonym pin_state_t = TriggerValue

record MultiChannelStateSequence =
  phaseCount :: "16 word"
  getChannelState :: "int \<Rightarrow> int \<Rightarrow> pin_state_t"

definition needEvent :: "int \<Rightarrow> MultiChannelStateSequence \<Rightarrow> int \<Rightarrow> fault + bool" where
  "needEvent currentIndex mcss channelIndex =
     (case getPreviousIndex currentIndex (uint (phaseCount mcss)) of
        Inl e \<Rightarrow> Inl e
      | Inr prevIndex \<Rightarrow>
          (let previousValue = getChannelState mcss channelIndex prevIndex;
               currentValue = getChannelState mcss channelIndex currentIndex
           in Inr (previousValue \<noteq> currentValue)))"

text \<open>
  The number of phase indices of one full cycle at which \<open>needEvent\<close> reports an
  edge on a channel.
\<close>

definition edgesPerCycle :: "MultiChannelStateSequence \<Rightarrow> int \<Rightarrow> nat" where
  "edgesPerCycle mcss channelIndex =
     length (filter (\<lambda>i. needEvent (int i) mcss channelIndex = Inr True)
               [0 ..< unat (phaseCount mcss)])"

text \<open>
  The scenario table of the specification: four phases, two channels, with the
  levels (low, low), (high, low), (high, high), (low, high).
\<close>

definition scenario_levels :: "int \<Rightarrow> int \<Rightarrow> pin_state_t" where
  "scenario_levels c p =
     (if c = 0 then (if p = 1 \<or> p = 2 then RISE else FALL)
      else if c = 1 then (if p = 2 \<or> p = 3 then RISE else FALL)
      else FALL)"

definition scenario_table :: MultiChannelStateSequence where
  "scenario_table = \<lparr>phaseCount = 4, getChannelState = scenario_levels\<rparr>"

text \<open>A table of a single phase, in which channel 0 is high and every other channel low.\<close>

definition steady_levels :: "int \<Rightarrow> int \<Rightarrow> pin_state_t" where
  "steady_levels c p = (if c = 0 then RISE else FALL)"

definition single_phase_table :: MultiChannelStateSequence where
  "single_phase_table = \<lparr>phaseCount = 1, getChannelState = steady_levels\<rparr>"

section \<open>Floating-point arithmetic of the target\<close>

text \<open>
  \<^verbatim>\<open>float\<close> and \<^verbatim>\<open>double\<close> are IEEE 754 binary32 and binary64: a value is NaN or a
  rational number with a significand of 24, respectively 53, bits, and every
  operation rounds its exact result to the nearest such number, ties to the even
  significand. The exponent range and the sign of zero are not modelled: the
  values computed in this file are zero or lie between \<open>2\<^sup>-\<^sup>7\<close> and \<open>2\<^sup>6\<^sup>2\<close> in
  magnitude, far from overflow and underflow of either format.
\<close>

fun bitlen :: "nat \<Rightarrow> nat" where
  "bitlen n = (if n = 0 then 0 else Suc (bitlen (n div 2)))"

declare bitlen.simps [simp del]

definition ilog2 :: "rat \<Rightarrow> int" where
  "ilog2 x =
     (let (p, q) = quotient_of x;
          d = int (bitlen (nat p)) - int (bitlen (nat q))
      in if 2 powi d \<le> x then d else d - 1)"

definition round_half_even :: "rat \<Rightarrow> int" where
  "round_half_even x =
     (let f = \<lfloor>x\<rfloor>; r = x - of_int f
      in if r < 1 / 2 then f
         else if 1 / 2 < r then f + 1
         else if even f then f else f + 1)"

definition round_to :: "nat \<Rightarrow> rat \<Rightarrow> rat" where
  "round_to p x =
     (if x = 0 then 0
      else let q = 2 powi (ilog2 \<bar>x\<bar> - int p + 1)
           in sgn x * of_int (round_half_even (\<bar>x\<bar> / q)) * q)"

datatype ieee = NaN | Finite rat

type_synonym float = ieee

type_synonym double = ieee

definition FLT_MANT_DIG :: nat where
  "FLT_MANT_DIG = 24"

definition DBL_MANT_DIG :: nat where
  "DBL_MANT_DIG = 53"

definition int_to_float :: "int \<Rightarrow> float" where
  "int_to_float i = Finite (round_to FLT_MANT_DIG (of_int i))"

definition float_mul :: "float \<Rightarrow> float \<Rightarrow> float" where
  "float_mul a b =
     (case a of
        NaN \<Rightarrow> NaN
      | Finite x \<Rightarrow> (case b of NaN \<Rightarrow> NaN | Finite y \<Rightarrow> Finite (round_to FLT_MANT_DIG (x * y))))"

definition float_to_double :: "float \<Rightarrow> double" where
  "float_to_double a = (case a of NaN \<Rightarrow> NaN | Finite x \<Rightarrow> Finite (round_to DBL_MANT_DIG x))"

definition double_to_float :: "double \<Rightarrow> float" where
  "double_to_float a = (case a of NaN \<Rightarrow> NaN | Finite x \<Rightarrow> Finite (round_to FLT_MANT_DIG x))"

text \<open>Division of a \<^verbatim>\<open>double\<close> by a non-zero literal \<open>d\<close>, as in \<^verbatim>\<open>x / 60.0\<close>.\<close>

definition double_div_literal :: "double \<Rightarrow> rat \<Rightarrow> double" where
  "double_div_literal a d =
     (case a of NaN \<Rightarrow> NaN | Finite x \<Rightarrow> Finite (round_to DBL_MANT_DIG (x / d)))"

definition is_negative :: "ieee \<Rightarrow> bool" where
  "is_negative a = (case a of NaN \<Rightarrow> False | Finite x \<Rightarrow> x < 0)"

section \<open>What the emulator takes from the rest of the firmware\<close>

text \<open>
  Modelled from the spec: the operation mode is an enumeration declared outside this
  file. The five enumerators that \<^verbatim>\<open>getRpmMultiplier\<close> names are kept; every other
  enumerator is \<open>OTHER_MODE\<close> with its number.
\<close>

datatype operation_mode_e =
    FOUR_STROKE_THREE_TIMES_CRANK_SENSOR
  | FOUR_STROKE_SYMMETRICAL_CRANK_SENSOR
  | FOUR_STROKE_TWELVE_TIMES_CRANK_SENSOR
  | FOUR_STROKE_CAM_SENSOR
  | FOUR_STROKE_CRANK_SENSOR
  | OTHER_MODE nat

type_synonym brain_pin_e = nat

type_synonym efitick_t = int

text \<open>
  Macros and helpers that the file uses and does not define are parameters of the
  model: the number of channels of a PWM, the three wheel constants (integer
  macros, so that \<^verbatim>\<open>/ 2\<close> is the truncating integer division), whether the build is
  the production firmware, the validity test of a pin, and the test whether the
  configuration of the pin of a channel changed.
\<close>

record firmware =
  PWM_PHASE_MAX_WAVE_PER_PWM :: nat
  SYMMETRICAL_CRANK_SENSOR_DIVIDER :: int
  SYMMETRICAL_THREE_TIMES_CRANK_SENSOR_DIVIDER :: int
  SYMMETRICAL_TWELVE_TIMES_CRANK_SENSOR_DIVIDER :: int
  EFI_PROD_CODE :: bool
  isBrainPinValid :: "brain_pin_e \<Rightarrow> bool"
  isConfigurationChanged_triggerSimulatorPins :: "nat \<Rightarrow> bool"

record engine_configuration_s =
  triggerSimulatorRpm :: int
  invertPrimaryTriggerSignal :: bool
  invertSecondaryTriggerSignal :: bool
  triggerSimulatorPins :: "brain_pin_e list"

record TriggerWaveform =
  version :: int
  wave :: MultiChannelStateSequence

text \<open>
  The fields of \<^verbatim>\<open>PwmConfig\<close> that this file reads or writes: the sequence it plays
  and \<^verbatim>\<open>safe.periodNt\<close>, to which the file only ever assigns \<open>-1\<close>.
\<close>

record PwmConfig =
  multiChannelStateSequence :: MultiChannelStateSequence
  safe_periodNt :: int

text \<open>
  A call that leaves the file is recorded, in order, with its arguments. Console
  output (\<^verbatim>\<open>efiPrintf\<close>) and the stack check are not recorded.
\<close>

datatype effect =
    HandleShaftSignal int bool efitick_t
  | SetFrequency float
  | ResetEngineSnifferIfInTestMode
  | WeComplexInit
  | PwmStop
  | RpmCalculatorRegister
  | IncrementGlobalConfigurationVersion string
  | ApplyPinState int
  | InitPin nat brain_pin_e

record emulator =
  engineConfiguration :: engine_configuration_s
  triggerShape :: TriggerWaveform
  directSelfStimulation :: bool
  operationMode :: operation_mode_e
  atTriggerVersion :: int
  hasStimPins :: bool
  hasInitTriggerEmulator :: bool
  calls :: "effect list"

section \<open>Emulator dispatcher\<close>

text \<open>
  The loop of \<^verbatim>\<open>handleEmulatorCallback\<close> over the channels \<open>i\<close>, from \<open>i\<close> up to the
  channel count, with the calls of \<^verbatim>\<open>handleShaftSignal\<close> made so far. The time stamp
  is read once, before the loop.
\<close>

function handleEmulatorCallback_loop ::
  "firmware \<Rightarrow> engine_configuration_s \<Rightarrow> MultiChannelStateSequence \<Rightarrow> int \<Rightarrow> efitick_t
     \<Rightarrow> nat \<Rightarrow> effect list \<Rightarrow> fault + effect list" where
  "handleEmulatorCallback_loop fw cfg mcss stateIndex stamp i sent =
     (if i < PWM_PHASE_MAX_WAVE_PER_PWM fw then
        (case needEvent stateIndex mcss (int i) of
           Inl e \<Rightarrow> Inl e
         | Inr edge \<Rightarrow>
             if edge then
               (let isRise0 = (RISE = getChannelState mcss (int i) stateIndex);
                    isRise1 = (isRise0 \<noteq> (i = 0 \<and> invertPrimaryTriggerSignal cfg));
                    isRise2 = (isRise1 \<noteq> (i = 1 \<and> invertSecondaryTriggerSignal cfg))
                in handleEmulatorCallback_loop fw cfg mcss stateIndex stamp (Suc i)
                     (sent @ [HandleShaftSignal (int i) isRise2 stamp]))
             else handleEmulatorCallback_loop fw cfg mcss stateIndex stamp (Suc i) sent)
      else Inr sent)"
  by pat_completeness auto
termination
  by (relation "measure (\<lambda>(fw, cfg, mcss, stateIndex, stamp, i, sent).
        PWM_PHASE_MAX_WAVE_PER_PWM fw - i)") auto

declare handleEmulatorCallback_loop.simps [simp del]

definition handleEmulatorCallback ::
  "firmware \<Rightarrow> engine_configuration_s \<Rightarrow> MultiChannelStateSequence \<Rightarrow> int \<Rightarrow> efitick_t
     \<Rightarrow> fault + effect list" where
  "handleEmulatorCallback fw cfg multiChannelStateSequence' stateIndex now =
     (let stamp = now
      in handleEmulatorCallback_loop fw cfg multiChannelStateSequence' stateIndex stamp 0 [])"

text \<open>What a dispatched call tells apart from its direction: the channel and the time stamp.\<close>

fun channel_and_stamp :: "effect \<Rightarrow> (int \<times> efitick_t) option" where
  "channel_and_stamp (HandleShaftSignal c r t) = Some (c, t)"
| "channel_and_stamp _ = None"

section \<open>RPM and frequency controller\<close>

definition getRpmMultiplier :: "firmware \<Rightarrow> operation_mode_e \<Rightarrow> float" where
  "getRpmMultiplier fw mode =
     (if mode = FOUR_STROKE_THREE_TIMES_CRANK_SENSOR then
        int_to_float (SYMMETRICAL_THREE_TIMES_CRANK_SENSOR_DIVIDER fw sdiv 2)
      else if mode = FOUR_STROKE_SYMMETRICAL_CRANK_SENSOR then
        int_to_float (SYMMETRICAL_CRANK_SENSOR_DIVIDER fw sdiv 2)
      else if mode = FOUR_STROKE_TWELVE_TIMES_CRANK_SENSOR then
        int_to_float (SYMMETRICAL_TWELVE_TIMES_CRANK_SENSOR_DIVIDER fw sdiv 2)
      else if mode = FOUR_STROKE_CAM_SENSOR then
        double_to_float (Finite (1 / 2))
      else if mode = FOUR_STROKE_CRANK_SENSOR then
        int_to_float 1
      else int_to_float 1)"

text \<open>
  \<^verbatim>\<open>float rPerSecond = rpm * rpmM / 60.0\<close>: the product is a \<^verbatim>\<open>float\<close>, the quotient
  by the \<^verbatim>\<open>double\<close> literal is a \<^verbatim>\<open>double\<close>, and the initialisation narrows it.
\<close>

definition rPerSecond :: "int \<Rightarrow> float \<Rightarrow> float" where
  "rPerSecond rpm rpmM =
     double_to_float
       (double_div_literal (float_to_double (float_mul (int_to_float rpm) rpmM)) 60)"

definition setTriggerEmulatorRPM :: "firmware \<Rightarrow> int \<Rightarrow> emulator \<Rightarrow> emulator" where
  "setTriggerEmulatorRPM fw rpm s =
     (let s1 = s\<lparr>engineConfiguration := (engineConfiguration s)\<lparr>triggerSimulatorRpm := rpm\<rparr>\<rparr>;
          s2 = (if rpm = 0 then s1\<lparr>calls := calls s1 @ [SetFrequency NaN]\<rparr>
                else (let rpmM = getRpmMultiplier fw (operationMode s1)
                      in s1\<lparr>calls := calls s1 @ [SetFrequency (rPerSecond rpm rpmM)]\<rparr>))
      in s2\<lparr>calls := calls s2 @ [ResetEngineSnifferIfInTestMode]\<rparr>)"

text \<open>The argument of the last \<^verbatim>\<open>setFrequency\<close> call, if there was one.\<close>

fun frequency_of :: "effect list \<Rightarrow> float option" where
  "frequency_of [] = None"
| "frequency_of (c # cs) =
     (case frequency_of cs of
        Some f \<Rightarrow> Some f
      | None \<Rightarrow> (case c of SetFrequency f \<Rightarrow> Some f | _ \<Rightarrow> None))"

section \<open>Waveform reconciliation and tick callback\<close>

text \<open>
  \<^verbatim>\<open>copyPwmParameters\<close> is defined outside this file and is a parameter here.
\<close>

definition updateTriggerWaveformIfNeeded ::
  "(PwmConfig \<Rightarrow> MultiChannelStateSequence \<Rightarrow> PwmConfig) \<Rightarrow> PwmConfig \<Rightarrow> emulator
     \<Rightarrow> emulator \<times> PwmConfig" where
  "updateTriggerWaveformIfNeeded copyPwmParameters state s =
     (if atTriggerVersion s < version (triggerShape s) then
        (let s1 = s\<lparr>atTriggerVersion := version (triggerShape s)\<rparr>;
             state1 = copyPwmParameters state (wave (triggerShape s1));
             state2 = state1\<lparr>safe_periodNt := - 1\<rparr>
         in (s1, state2))
      else (s, state))"

definition emulatorApplyPinState ::
  "firmware \<Rightarrow> int \<Rightarrow> PwmConfig \<Rightarrow> efitick_t \<Rightarrow> emulator \<Rightarrow> fault + emulator" where
  "emulatorApplyPinState fw stateIndex state now s =
     (if directSelfStimulation s then
        (case handleEmulatorCallback fw (engineConfiguration s)
                (multiChannelStateSequence state) stateIndex now of
           Inl e \<Rightarrow> Inl e
         | Inr sent \<Rightarrow> Inr (s\<lparr>calls := calls s @ sent\<rparr>))
      else if EFI_PROD_CODE fw \<and> hasStimPins s then
        Inr (s\<lparr>calls := calls s @ [ApplyPinState stateIndex]\<rparr>)
      else Inr s)"

section \<open>Lifecycle controller\<close>

definition startSimulatedTriggerSignal :: "firmware \<Rightarrow> emulator \<Rightarrow> emulator" where
  "startSimulatedTriggerSignal fw s =
     (if hasInitTriggerEmulator s then s
      else (let s1 = setTriggerEmulatorRPM fw (triggerSimulatorRpm (engineConfiguration s)) s;
                s2 = s1\<lparr>calls := calls s1 @ [WeComplexInit]\<rparr>
            in s2\<lparr>hasInitTriggerEmulator := True\<rparr>))"

definition enableTriggerStimulator :: "firmware \<Rightarrow> bool \<Rightarrow> emulator \<Rightarrow> emulator" where
  "enableTriggerStimulator fw incGlobalConfiguration s =
     (let s1 = startSimulatedTriggerSignal fw s;
          s2 = s1\<lparr>directSelfStimulation := True\<rparr>;
          s3 = s2\<lparr>calls := calls s2 @ [RpmCalculatorRegister]\<rparr>
      in if incGlobalConfiguration
         then s3\<lparr>calls := calls s3 @ [IncrementGlobalConfigurationVersion ''trgSim'']\<rparr>
         else s3)"

definition enableExternalTriggerStimulator :: "firmware \<Rightarrow> emulator \<Rightarrow> emulator" where
  "enableExternalTriggerStimulator fw s =
     (let s1 = startSimulatedTriggerSignal fw s;
          s2 = s1\<lparr>directSelfStimulation := False\<rparr>
      in s2\<lparr>calls := calls s2 @ [IncrementGlobalConfigurationVersion ''extTrg'']\<rparr>)"

definition disableTriggerStimulator :: "emulator \<Rightarrow> emulator" where
  "disableTriggerStimulator s =
     (let s1 = s\<lparr>directSelfStimulation := False\<rparr>;
          s2 = s1\<lparr>calls := calls s1 @ [PwmStop]\<rparr>;
          s3 = s2\<lparr>hasInitTriggerEmulator := False\<rparr>
      in s3\<lparr>calls := calls s3 @ [IncrementGlobalConfigurationVersion ''disTrg'']\<rparr>)"

definition onConfigurationChangeRpmEmulatorCallback ::
  "firmware \<Rightarrow> engine_configuration_s \<Rightarrow> emulator \<Rightarrow> emulator" where
  "onConfigurationChangeRpmEmulatorCallback fw previousConfiguration s =
     (if triggerSimulatorRpm (engineConfiguration s) = triggerSimulatorRpm previousConfiguration
      then s
      else setTriggerEmulatorRPM fw (triggerSimulatorRpm (engineConfiguration s)) s)"

text \<open>
  The loop of \<^verbatim>\<open>startTriggerEmulatorPins\<close> over the outputs, of which there are as
  many as channels. The wiring of \<^verbatim>\<open>outputPins[i]\<close> to the static outputs is not part
  of the state.
\<close>

function startTriggerEmulatorPins_loop :: "firmware \<Rightarrow> nat \<Rightarrow> emulator \<Rightarrow> fault + emulator" where
  "startTriggerEmulatorPins_loop fw i s =
     (if i < PWM_PHASE_MAX_WAVE_PER_PWM fw then
        (if i < length (triggerSimulatorPins (engineConfiguration s)) then
           (let pin = triggerSimulatorPins (engineConfiguration s) ! i;
                s1 = (if isBrainPinValid fw pin then s\<lparr>hasStimPins := True\<rparr> else s);
                s2 = (if EFI_PROD_CODE fw \<and> isConfigurationChanged_triggerSimulatorPins fw i
                      then s1\<lparr>calls := calls s1 @ [InitPin i pin]\<rparr> else s1)
            in startTriggerEmulatorPins_loop fw (Suc i) s2)
         else Inl OutOfBounds)
      else Inr s)"
  by pat_completeness auto
termination
  by (relation "measure (\<lambda>(fw, i, s). PWM_PHASE_MAX_WAVE_PER_PWM fw - i)") auto

declare startTriggerEmulatorPins_loop.simps [simp del]

definition startTriggerEmulatorPins :: "firmware \<Rightarrow> emulator \<Rightarrow> fault + emulator" where
  "startTriggerEmulatorPins fw s = startTriggerEmulatorPins_loop fw 0 (s\<lparr>hasStimPins := False\<rparr>)"

text \<open>The calls made between an earlier state \<open>s\<close> and a later state \<open>s'\<close>.\<close>

definition calls_since :: "emulator \<Rightarrow> emulator \<Rightarrow> effect list" where
  "calls_since s s' = drop (length (calls s)) (calls s')"

section \<open>Concrete inputs\<close>

fun pin_is_assigned :: "brain_pin_e \<Rightarrow> bool" where
  "pin_is_assigned p = (p \<noteq> 0)"

fun pin_unchanged :: "nat \<Rightarrow> bool" where
  "pin_unchanged i = False"

definition bench_firmware :: firmware where
  "bench_firmware =
     \<lparr>PWM_PHASE_MAX_WAVE_PER_PWM = 2,
      SYMMETRICAL_CRANK_SENSOR_DIVIDER = 4,
      SYMMETRICAL_THREE_TIMES_CRANK_SENSOR_DIVIDER = 6,
      SYMMETRICAL_TWELVE_TIMES_CRANK_SENSOR_DIVIDER = 24,
      EFI_PROD_CODE = True,
      isBrainPinValid = pin_is_assigned,
      isConfigurationChanged_triggerSimulatorPins = pin_unchanged\<rparr>"

definition bench_configuration :: engine_configuration_s where
  "bench_configuration =
     \<lparr>triggerSimulatorRpm = 6000,
      invertPrimaryTriggerSignal = True,
      invertSecondaryTriggerSignal = False,
      triggerSimulatorPins = [0, 0]\<rparr>"

definition bench_emulator :: emulator where
  "bench_emulator =
     \<lparr>engineConfiguration = bench_configuration,
      triggerShape = \<lparr>version = 3, wave = scenario_table\<rparr>,
      directSelfStimulation = False,
      operationMode = FOUR_STROKE_CRANK_SENSOR,
      atTriggerVersion = 2,
      hasStimPins = False,
      hasInitTriggerEmulator = False,
      calls = []\<rparr>"

definition bench_pwm :: PwmConfig where
  "bench_pwm = \<lparr>multiChannelStateSequence = single_phase_table, safe_periodNt = 1000\<rparr>"

fun adopt_sequence :: "PwmConfig \<Rightarrow> MultiChannelStateSequence \<Rightarrow> PwmConfig" where
  "adopt_sequence state seq = state\<lparr>multiChannelStateSequence := seq\<rparr>"

section \<open>Properties of the edge detector\<close>

lemma getPreviousIndex_no_fault:
  assumes "0 < n" and "INT_MIN \<le> i" and "i + n \<le> INT_MAX"
  shows "getPreviousIndex i n = Inr ((i + n - 1) smod n)"
proof -
  have a: "int_add i n = Inr (i + n)"
    using assms by (simp add: int_add_def in_int_range_def)
  have b: "int_sub (i + n) 1 = Inr (i + n - 1)"
    using assms by (simp add: int_sub_def in_int_range_def)
  have c: "int_rem (i + n - 1) n = Inr ((i + n - 1) smod n)"
    using assms by (simp add: int_rem_def)
  from a b c show ?thesis
    by (simp add: getPreviousIndex_def)
qed

lemma smod_nonneg:
  fixes a b :: int
  assumes "0 \<le> a" and "0 < b"
  shows "a smod b = a mod b"
  using assms by (simp add: signed_modulo_int_def sgn_if)

lemma getPreviousIndex_in_range:
  assumes "1 \<le> n" and "0 \<le> i" and "i + n \<le> INT_MAX"
  shows "getPreviousIndex i n = Inr ((i - 1 + n) mod n)"
proof -
  have "INT_MIN \<le> i" using assms by (simp add: INT_MIN_def)
  then have "getPreviousIndex i n = Inr ((i + n - 1) smod n)"
    using assms by (intro getPreviousIndex_no_fault) simp_all
  moreover have "(i + n - 1) smod n = (i + n - 1) mod n"
    using assms by (intro smod_nonneg) simp_all
  moreover have "i + n - 1 = i - 1 + n" by simp
  ultimately show ?thesis by simp
qed

lemma uint_phaseCount_positive:
  assumes "phaseCount mcss \<noteq> 0"
  shows "0 < uint (phaseCount mcss)"
  using assms uint_0_iff [of "phaseCount mcss"] uint_ge_0 [of "phaseCount mcss"]
  by linarith

lemma needEvent_no_fault:
  assumes "phaseCount mcss \<noteq> 0" and "INT_MIN \<le> i" and "i + uint (phaseCount mcss) \<le> INT_MAX"
  shows "needEvent i mcss c =
           Inr (getChannelState mcss c ((i + uint (phaseCount mcss) - 1) smod uint (phaseCount mcss))
                  \<noteq> getChannelState mcss c i)"
proof -
  have "0 < uint (phaseCount mcss)"
    using assms(1) by (rule uint_phaseCount_positive)
  then have "getPreviousIndex i (uint (phaseCount mcss))
             = Inr ((i + uint (phaseCount mcss) - 1) smod uint (phaseCount mcss))"
    using assms by (intro getPreviousIndex_no_fault)
  then show ?thesis by (simp add: needEvent_def)
qed

text \<open>
  Claim C9, as amended. For every size \<open>n \<ge> 1\<close> and every current index \<open>i\<close> with
  \<open>0 \<le> i < n\<close> whose sum \<open>i + n\<close> is still an \<^verbatim>\<open>int\<close> (at most \<open>INT_MAX\<close>, which holds
  for every \<open>n \<le> 2\<^sup>3\<^sup>0\<close> and so for every 16-bit phase count),
  \<open>getPreviousIndex i n\<close> returns \<open>(i - 1 + n) mod n\<close>, a value in \<open>[0, n)\<close>, and does
  not divide by zero.
\<close>

theorem getPreviousIndex_correct:
  assumes "1 \<le> n" and "0 \<le> i" and "i < n" and "i + n \<le> INT_MAX"
  shows "getPreviousIndex i n = Inr ((i - 1 + n) mod n)
         \<and> 0 \<le> (i - 1 + n) mod n \<and> (i - 1 + n) mod n < n
         \<and> getPreviousIndex i n \<noteq> Inl DivideByZero"
  using assms getPreviousIndex_in_range [of n i] by simp

theorem getPreviousIndex_correct_witness:
  "(1::int) \<le> 4 \<and> (0::int) \<le> 0 \<and> (0::int) < 4 \<and> 0 + 4 \<le> INT_MAX
   \<and> getPreviousIndex 0 4 = Inr 3"
  using getPreviousIndex_correct [of 4 0]
  by (simp add: INT_MAX_def)

text \<open>
  Claim C9 as stated fails where the sum leaves the range of \<^verbatim>\<open>int\<close>: with
  \<open>n = 2147483647\<close> and \<open>i = 2147483646\<close> the hypotheses \<open>n \<ge> 1\<close> and \<open>0 \<le> i < n\<close>
  hold, and \<^verbatim>\<open>currentIndex + size\<close> overflows.
\<close>

theorem getPreviousIndex_overflow_counterexample:
  "(1::int) \<le> 2147483647 \<and> (0::int) \<le> 2147483646 \<and> (2147483646::int) < 2147483647
   \<and> getPreviousIndex 2147483646 2147483647 = Inl SignedOverflow
   \<and> getPreviousIndex 2147483646 2147483647
       \<noteq> Inr ((2147483646 - 1 + 2147483647) mod 2147483647)"
  by (simp add: getPreviousIndex_def int_add_def in_int_range_def INT_MAX_def INT_MIN_def)

text \<open>
  Claim C8. For every phase table with \<open>phaseCount = 1\<close>, every channel and every
  current index of the table (\<open>0 \<le> i < phaseCount\<close>), the previous index computed
  equals the current index, so \<open>needEvent\<close> returns false, and the computation does
  not fault.
\<close>

theorem single_phase_no_edge:
  assumes "phaseCount mcss = 1" and "0 \<le> i" and "i < uint (phaseCount mcss)"
  shows "getPreviousIndex i (uint (phaseCount mcss)) = Inr i
         \<and> needEvent i mcss c = Inr False"
proof -
  have i: "i = 0" using assms by simp
  have "getPreviousIndex 0 1 = Inr ((0 - 1 + 1) mod 1)"
    by (rule getPreviousIndex_in_range) (simp_all add: INT_MAX_def)
  then have p: "getPreviousIndex i (uint (phaseCount mcss)) = Inr i"
    using assms(1) i by simp
  then show ?thesis
    by (simp add: needEvent_def i)
qed

theorem single_phase_no_edge_witness:
  "phaseCount single_phase_table = 1 \<and> (0::int) \<le> 0
   \<and> 0 < uint (phaseCount single_phase_table)
   \<and> getPreviousIndex 0 (uint (phaseCount single_phase_table)) = Inr 0
   \<and> needEvent 0 single_phase_table 0 = Inr False"
  using single_phase_no_edge [of single_phase_table 0 0]
  by (simp add: single_phase_table_def)

lemma parity_of_changes:
  fixes f :: "nat \<Rightarrow> TriggerValue"
  shows "even (length (filter (\<lambda>i. f i \<noteq> f (Suc i)) [0 ..< m])) \<longleftrightarrow> f 0 = f m"
proof (induction m)
  case 0
  show ?case by simp
next
  case (Suc m)
  show ?case
  proof (cases "f m = f (Suc m)")
    case True
    with Suc show ?thesis by simp
  next
    case False
    have "f 0 = f (Suc m) \<longleftrightarrow> f 0 \<noteq> f m"
      using False by (cases "f 0"; cases "f m"; cases "f (Suc m)") simp_all
    with Suc False show ?thesis by simp
  qed
qed

lemma upt_from_one: "[Suc 0 ..< Suc k] = map Suc [0 ..< k]"
  by (simp add: map_Suc_upt)

lemma cyclic_changes_even:
  fixes f :: "nat \<Rightarrow> TriggerValue"
  shows "even (length (filter (\<lambda>i. f ((i + n - 1) mod n) \<noteq> f i) [0 ..< n]))"
proof (cases n)
  case 0
  then show ?thesis by simp
next
  case (Suc k)
  define P where "P = (\<lambda>i. f ((i + Suc k - 1) mod Suc k) \<noteq> f i)"
  define Q where "Q = (\<lambda>j. f j \<noteq> f (Suc j))"
  have "[0 ..< Suc k] = 0 # [Suc 0 ..< Suc k]"
    by (rule upt_conv_Cons) simp
  then have split: "[0 ..< Suc k] = 0 # map Suc [0 ..< k]"
    by (simp only: map_Suc_upt)
  have P0: "P 0 \<longleftrightarrow> f k \<noteq> f 0"
    by (simp add: P_def)
  have PS: "P (Suc x) = Q x" if "x < k" for x
  proof -
    have "(x + Suc k) mod Suc k = x"
      using that by (simp only: mod_add_self2) simp
    then show ?thesis by (simp add: P_def Q_def)
  qed
  have "filter (P \<circ> Suc) [0 ..< k] = filter Q [0 ..< k]"
    by (rule filter_cong) (simp_all add: PS)
  then have "filter P (map Suc [0 ..< k]) = map Suc (filter Q [0 ..< k])"
    by (simp only: filter_map)
  then have count: "length (filter P [0 ..< Suc k])
                    = (if P 0 then 1 else 0) + length (filter Q [0 ..< k])"
    by (simp only: split filter.simps length_map list.size split: if_splits) simp
  have par: "even (length (filter Q [0 ..< k])) \<longleftrightarrow> f 0 = f k"
    unfolding Q_def by (rule parity_of_changes)
  have "even (length (filter P [0 ..< Suc k]))"
  proof (cases "f k = f 0")
    case True
    then show ?thesis using par P0 count by simp
  next
    case False
    then have "odd (length (filter Q [0 ..< k]))" using par by auto
    then show ?thesis using False P0 count by simp
  qed
  then show ?thesis
    unfolding P_def Suc .
qed

lemma needEvent_in_cycle:
  assumes "i < unat (phaseCount mcss)"
  shows "needEvent (int i) mcss c =
           Inr (getChannelState mcss c (int ((i + unat (phaseCount mcss) - 1) mod unat (phaseCount mcss)))
                 \<noteq> getChannelState mcss c (int i))"
proof -
  define n where "n = unat (phaseCount mcss)"
  have u: "uint (phaseCount mcss) = int n"
    by (simp add: n_def)
  have "uint (phaseCount mcss) < 65536"
    using uint_bounded [of "phaseCount mcss"] by simp
  then have bound: "int n \<le> 65535"
    using u by linarith
  have i: "i < n" using assms by (simp add: n_def)
  then have pos: "1 \<le> int n" by linarith
  have "getPreviousIndex (int i) (int n) = Inr ((int i - 1 + int n) mod int n)"
    using pos bound i by (intro getPreviousIndex_in_range) (simp_all add: INT_MAX_def)
  moreover have "(int i - 1 + int n) mod int n = int ((i + n - 1) mod n)"
  proof -
    have "int i - 1 + int n = int (i + n - 1)" using i by (simp add: of_nat_diff)
    then show ?thesis by (simp only: zmod_int)
  qed
  ultimately have "getPreviousIndex (int i) (uint (phaseCount mcss)) = Inr (int ((i + n - 1) mod n))"
    using u by simp
  then show ?thesis
    unfolding needEvent_def n_def by simp
qed

text \<open>
  Claim C7. For every phase table and every channel, the number of phase indices
  \<open>i\<close> in \<open>[0, phaseCount)\<close> at which \<open>needEvent i\<close> returns true is even. (By
  \<open>needEvent_in_cycle\<close>, \<open>needEvent\<close> does not fault at any of these indices.)
\<close>

theorem edges_per_cycle_even:
  "even (edgesPerCycle mcss channelIndex)"
proof -
  let ?n = "unat (phaseCount mcss)"
  let ?f = "\<lambda>k. getChannelState mcss channelIndex (int k)"
  have "filter (\<lambda>i. needEvent (int i) mcss channelIndex = Inr True) [0 ..< ?n]
        = filter (\<lambda>i. ?f ((i + ?n - 1) mod ?n) \<noteq> ?f i) [0 ..< ?n]"
    by (rule filter_cong) (simp_all add: needEvent_in_cycle)
  then show ?thesis
    unfolding edgesPerCycle_def using cyclic_changes_even [of ?f ?n] by simp
qed

section \<open>Properties of the dispatcher\<close>

lemma handleEmulatorCallback_loop_unfold:
  "handleEmulatorCallback_loop fw cfg mcss stateIndex stamp i sent =
     (if i < PWM_PHASE_MAX_WAVE_PER_PWM fw then
        (case needEvent stateIndex mcss (int i) of
           Inl e \<Rightarrow> Inl e
         | Inr edge \<Rightarrow>
             handleEmulatorCallback_loop fw cfg mcss stateIndex stamp (Suc i)
               (if edge
                then sent @ [HandleShaftSignal (int i)
                       (((RISE = getChannelState mcss (int i) stateIndex)
                           \<noteq> (i = 0 \<and> invertPrimaryTriggerSignal cfg))
                           \<noteq> (i = 1 \<and> invertSecondaryTriggerSignal cfg)) stamp]
                else sent))
      else Inr sent)"
  by (subst handleEmulatorCallback_loop.simps) (simp add: Let_def split: sum.splits)

lemma handleEmulatorCallback_loop_dispatch:
  assumes "phaseCount mcss \<noteq> 0" and "INT_MIN \<le> stateIndex"
    and "stateIndex + uint (phaseCount mcss) \<le> INT_MAX"
  shows "handleEmulatorCallback_loop fw cfg mcss stateIndex stamp i sent =
           Inr (sent @ map (\<lambda>j. HandleShaftSignal (int j)
                              (((getChannelState mcss (int j) stateIndex = RISE)
                                  \<noteq> (j = 0 \<and> invertPrimaryTriggerSignal cfg))
                                  \<noteq> (j = 1 \<and> invertSecondaryTriggerSignal cfg)) stamp)
                        (filter (\<lambda>j. needEvent stateIndex mcss (int j) = Inr True)
                           [i ..< PWM_PHASE_MAX_WAVE_PER_PWM fw]))"
proof (induction "PWM_PHASE_MAX_WAVE_PER_PWM fw - i" arbitrary: i sent)
  case 0
  then have "\<not> i < PWM_PHASE_MAX_WAVE_PER_PWM fw" by simp
  then show ?case
    by (subst handleEmulatorCallback_loop_unfold) simp
next
  case (Suc d)
  then have lt: "i < PWM_PHASE_MAX_WAVE_PER_PWM fw" by simp
  have d: "d = PWM_PHASE_MAX_WAVE_PER_PWM fw - Suc i" using Suc.hyps(2) by simp
  obtain b where b: "needEvent stateIndex mcss (int i) = Inr b"
    using needEvent_no_fault [OF assms] by blast
  have upt: "[i ..< PWM_PHASE_MAX_WAVE_PER_PWM fw] = i # [Suc i ..< PWM_PHASE_MAX_WAVE_PER_PWM fw]"
    using lt by (rule upt_conv_Cons)
  show ?case
    by (subst handleEmulatorCallback_loop_unfold)
      (auto simp add: lt b upt Suc.hyps(1) [OF d])
qed

text \<open>
  Claim C5. When the edge detector does not fault (a non-empty table and a state
  index whose sum with the phase count is an \<^verbatim>\<open>int\<close>), \<open>handleEmulatorCallback\<close>
  calls \<^verbatim>\<open>handleShaftSignal\<close> for exactly the channels on which \<open>needEvent\<close> reports
  an edge, in channel order. The direction passed is rising exactly when the level
  at the state index is the high state, flipped once for channel 0 if the primary
  invert flag is set and once for channel 1 if the secondary invert flag is set;
  for every other channel both flips are void. Every call carries the one time
  stamp read before the loop.
\<close>

theorem handleEmulatorCallback_dispatch:
  assumes "phaseCount mcss \<noteq> 0" and "INT_MIN \<le> stateIndex"
    and "stateIndex + uint (phaseCount mcss) \<le> INT_MAX"
  shows "handleEmulatorCallback fw cfg mcss stateIndex now =
           Inr (map (\<lambda>i. HandleShaftSignal (int i)
                           (((getChannelState mcss (int i) stateIndex = RISE)
                               \<noteq> (i = 0 \<and> invertPrimaryTriggerSignal cfg))
                               \<noteq> (i = 1 \<and> invertSecondaryTriggerSignal cfg)) now)
                     (filter (\<lambda>i. needEvent stateIndex mcss (int i) = Inr True)
                        [0 ..< PWM_PHASE_MAX_WAVE_PER_PWM fw]))"
  using handleEmulatorCallback_loop_dispatch [OF assms, of fw cfg now 0 "[]"]
  by (simp add: handleEmulatorCallback_def)

lemma needEvent_scenario:
  "needEvent 1 scenario_table 0 = Inr True" "needEvent 1 scenario_table 1 = Inr False"
  by (simp_all add: needEvent_def getPreviousIndex_def int_add_def int_sub_def int_rem_def
      in_int_range_def INT_MIN_def INT_MAX_def signed_modulo_int_def scenario_table_def
      scenario_levels_def)

theorem handleEmulatorCallback_dispatch_witness:
  "phaseCount scenario_table \<noteq> 0 \<and> INT_MIN \<le> 1
   \<and> 1 + uint (phaseCount scenario_table) \<le> INT_MAX
   \<and> handleEmulatorCallback bench_firmware bench_configuration scenario_table 1 777
       = Inr [HandleShaftSignal 0 False 777]"
proof -
  have h: "phaseCount scenario_table \<noteq> 0" "INT_MIN \<le> 1"
    "1 + uint (phaseCount scenario_table) \<le> INT_MAX"
    by (simp_all add: scenario_table_def INT_MIN_def INT_MAX_def)
  have l: "[0 ..< PWM_PHASE_MAX_WAVE_PER_PWM bench_firmware] = [0, 1]"
    by (simp add: bench_firmware_def upt_rec)
  have lv: "getChannelState scenario_table 0 1 = RISE"
    by (simp add: scenario_table_def scenario_levels_def)
  show ?thesis
    using h handleEmulatorCallback_dispatch [OF h, of bench_firmware bench_configuration 777]
    by (simp add: l needEvent_scenario lv bench_configuration_def)
qed

lemma handleEmulatorCallback_loop_invert_independent:
  assumes "map channel_and_stamp sent1 = map channel_and_stamp sent2"
  shows "map_sum id (map channel_and_stamp)
           (handleEmulatorCallback_loop fw cfg1 mcss stateIndex stamp i sent1)
         = map_sum id (map channel_and_stamp)
           (handleEmulatorCallback_loop fw cfg2 mcss stateIndex stamp i sent2)"
  using assms
proof (induction "PWM_PHASE_MAX_WAVE_PER_PWM fw - i" arbitrary: i sent1 sent2)
  case 0
  then have "\<not> i < PWM_PHASE_MAX_WAVE_PER_PWM fw" by simp
  then show ?case
    using "0.prems"
    by (subst (1 2) handleEmulatorCallback_loop_unfold) simp
next
  case (Suc d)
  then have lt: "i < PWM_PHASE_MAX_WAVE_PER_PWM fw" by simp
  have d: "d = PWM_PHASE_MAX_WAVE_PER_PWM fw - Suc i" using Suc.hyps(2) by simp
  show ?case
  proof (cases "needEvent stateIndex mcss (int i)")
    case (Inl e)
    then show ?thesis
      by (subst (1 2) handleEmulatorCallback_loop_unfold) (simp add: lt)
  next
    case (Inr b)
    show ?thesis
    proof (cases b)
      case True
      have "map_sum id (map channel_and_stamp)
              (handleEmulatorCallback_loop fw cfg1 mcss stateIndex stamp (Suc i)
                 (sent1 @ [HandleShaftSignal (int i)
                    (((RISE = getChannelState mcss (int i) stateIndex)
                        \<noteq> (i = 0 \<and> invertPrimaryTriggerSignal cfg1))
                        \<noteq> (i = 1 \<and> invertSecondaryTriggerSignal cfg1)) stamp]))
            = map_sum id (map channel_and_stamp)
              (handleEmulatorCallback_loop fw cfg2 mcss stateIndex stamp (Suc i)
                 (sent2 @ [HandleShaftSignal (int i)
                    (((RISE = getChannelState mcss (int i) stateIndex)
                        \<noteq> (i = 0 \<and> invertPrimaryTriggerSignal cfg2))
                        \<noteq> (i = 1 \<and> invertSecondaryTriggerSignal cfg2)) stamp]))"
        by (rule Suc.hyps(1) [OF d]) (simp add: Suc.prems)
      then show ?thesis
        by (subst (1 2) handleEmulatorCallback_loop_unfold) (simp only: lt Inr True if_True sum.case)
    next
      case False
      have "map_sum id (map channel_and_stamp)
              (handleEmulatorCallback_loop fw cfg1 mcss stateIndex stamp (Suc i) sent1)
            = map_sum id (map channel_and_stamp)
              (handleEmulatorCallback_loop fw cfg2 mcss stateIndex stamp (Suc i) sent2)"
        by (rule Suc.hyps(1) [OF d]) (rule Suc.prems)
      then show ?thesis
        by (subst (1 2) handleEmulatorCallback_loop_unfold) (simp only: lt Inr False if_True if_False sum.case)
    qed
  qed
qed

text \<open>
  Claim C10. Two configurations that differ only in the primary and secondary
  invert flags make \<open>handleEmulatorCallback\<close>, on the same table, state index and
  clock, either fault alike or dispatch calls for the same channels, in the same
  order, with the same time stamp: the flags change directions only.
\<close>

theorem invert_flags_keep_dispatched_channels:
  "map_sum id (map channel_and_stamp)
     (handleEmulatorCallback fw
        (cfg\<lparr>invertPrimaryTriggerSignal := p, invertSecondaryTriggerSignal := q\<rparr>)
        mcss stateIndex now)
   = map_sum id (map channel_and_stamp) (handleEmulatorCallback fw cfg mcss stateIndex now)"
  unfolding handleEmulatorCallback_def Let_def
  by (rule handleEmulatorCallback_loop_invert_independent) simp

section \<open>Properties of reconciliation, tick dispatch and lifecycle\<close>

text \<open>
  Claim C1. When the cached trigger-shape version is behind the version of the
  table, \<open>updateTriggerWaveformIfNeeded\<close> sets the cached version to the table's
  version, copies the parameters of the new waveform into the PWM state
  (\<^verbatim>\<open>copyPwmParameters\<close>) and then sets the cached period \<^verbatim>\<open>safe.periodNt\<close> to the
  sentinel \<open>-1\<close>; when the cached version is not behind, the emulator and the PWM
  state are left as they were.
\<close>

theorem updateTriggerWaveformIfNeeded_reconciles:
  "(atTriggerVersion s < version (triggerShape s) \<longrightarrow>
      updateTriggerWaveformIfNeeded copyPwmParameters state s =
        (s\<lparr>atTriggerVersion := version (triggerShape s)\<rparr>,
         (copyPwmParameters state (wave (triggerShape s)))\<lparr>safe_periodNt := - 1\<rparr>)
      \<and> atTriggerVersion (fst (updateTriggerWaveformIfNeeded copyPwmParameters state s))
          = version (triggerShape s)
      \<and> safe_periodNt (snd (updateTriggerWaveformIfNeeded copyPwmParameters state s)) = - 1)
   \<and> (\<not> atTriggerVersion s < version (triggerShape s) \<longrightarrow>
      updateTriggerWaveformIfNeeded copyPwmParameters state s = (s, state))"
  by (simp add: updateTriggerWaveformIfNeeded_def Let_def)

theorem updateTriggerWaveformIfNeeded_reconciles_witness:
  "atTriggerVersion bench_emulator < version (triggerShape bench_emulator)
   \<and> updateTriggerWaveformIfNeeded adopt_sequence bench_pwm bench_emulator
       = (bench_emulator\<lparr>atTriggerVersion := 3\<rparr>,
          \<lparr>multiChannelStateSequence = scenario_table, safe_periodNt = - 1\<rparr>)
   \<and> \<not> atTriggerVersion (bench_emulator\<lparr>atTriggerVersion := 3\<rparr>)
         < version (triggerShape (bench_emulator\<lparr>atTriggerVersion := 3\<rparr>))
   \<and> updateTriggerWaveformIfNeeded adopt_sequence bench_pwm (bench_emulator\<lparr>atTriggerVersion := 3\<rparr>)
       = (bench_emulator\<lparr>atTriggerVersion := 3\<rparr>, bench_pwm)"
  using updateTriggerWaveformIfNeeded_reconciles [of bench_emulator adopt_sequence bench_pwm]
    updateTriggerWaveformIfNeeded_reconciles
      [of "bench_emulator\<lparr>atTriggerVersion := 3\<rparr>" adopt_sequence bench_pwm]
  by (simp add: bench_emulator_def bench_pwm_def)

lemma startSimulatedTriggerSignal_initialized:
  assumes "hasInitTriggerEmulator s"
  shows "startSimulatedTriggerSignal fw s = s"
  using assms by (simp add: startSimulatedTriggerSignal_def)

lemma calls_setTriggerEmulatorRPM:
  "calls (setTriggerEmulatorRPM fw rpm s) =
     calls s @ [SetFrequency (if rpm = 0 then NaN
                              else rPerSecond rpm (getRpmMultiplier fw (operationMode s))),
                ResetEngineSnifferIfInTestMode]"
  by (simp add: setTriggerEmulatorRPM_def Let_def)

lemma calls_startSimulatedTriggerSignal:
  assumes "\<not> hasInitTriggerEmulator s"
  shows "calls (startSimulatedTriggerSignal fw s) =
     calls s @ [SetFrequency (if triggerSimulatorRpm (engineConfiguration s) = 0 then NaN
                              else rPerSecond (triggerSimulatorRpm (engineConfiguration s))
                                     (getRpmMultiplier fw (operationMode s))),
                ResetEngineSnifferIfInTestMode, WeComplexInit]"
  using assms by (simp add: startSimulatedTriggerSignal_def Let_def calls_setTriggerEmulatorRPM)

text \<open>
  Claim C3, as amended. Calling enable for either stimulation mode while the
  emulator is already initialised does not restart timing: the guard of
  \<open>startSimulatedTriggerSignal\<close>, keyed on being initialised and not on the mode,
  returns before the frequency is applied and the scheduler initialised, so the
  call only sets the mode flag and makes its bookkeeping calls. The frequency is
  applied and the scheduler initialised only when the emulator is not initialised.
\<close>

theorem enable_other_mode_keeps_timing:
  "(hasInitTriggerEmulator s \<longrightarrow>
      enableExternalTriggerStimulator fw s =
        s\<lparr>directSelfStimulation := False,
          calls := calls s @ [IncrementGlobalConfigurationVersion ''extTrg'']\<rparr>
      \<and> enableTriggerStimulator fw False s =
        s\<lparr>directSelfStimulation := True, calls := calls s @ [RpmCalculatorRegister]\<rparr>
      \<and> enableTriggerStimulator fw True s =
        s\<lparr>directSelfStimulation := True,
          calls := calls s @ [RpmCalculatorRegister,
                              IncrementGlobalConfigurationVersion ''trgSim'']\<rparr>)
   \<and> (\<not> hasInitTriggerEmulator s \<longrightarrow>
      calls_since s (enableExternalTriggerStimulator fw s) =
        [SetFrequency (if triggerSimulatorRpm (engineConfiguration s) = 0 then NaN
                       else rPerSecond (triggerSimulatorRpm (engineConfiguration s))
                              (getRpmMultiplier fw (operationMode s))),
         ResetEngineSnifferIfInTestMode, WeComplexInit,
         IncrementGlobalConfigurationVersion ''extTrg'']
      \<and> hasInitTriggerEmulator (enableExternalTriggerStimulator fw s))"
proof (intro conjI impI)
  assume i: "hasInitTriggerEmulator s"
  show "enableExternalTriggerStimulator fw s =
        s\<lparr>directSelfStimulation := False,
          calls := calls s @ [IncrementGlobalConfigurationVersion ''extTrg'']\<rparr>"
    by (simp add: enableExternalTriggerStimulator_def startSimulatedTriggerSignal_initialized [OF i])
  show "enableTriggerStimulator fw False s =
        s\<lparr>directSelfStimulation := True, calls := calls s @ [RpmCalculatorRegister]\<rparr>"
    by (simp add: enableTriggerStimulator_def startSimulatedTriggerSignal_initialized [OF i])
  show "enableTriggerStimulator fw True s =
        s\<lparr>directSelfStimulation := True,
          calls := calls s @ [RpmCalculatorRegister,
                              IncrementGlobalConfigurationVersion ''trgSim'']\<rparr>"
    by (simp add: enableTriggerStimulator_def startSimulatedTriggerSignal_initialized [OF i])
next
  assume n: "\<not> hasInitTriggerEmulator s"
  show "calls_since s (enableExternalTriggerStimulator fw s) =
        [SetFrequency (if triggerSimulatorRpm (engineConfiguration s) = 0 then NaN
                       else rPerSecond (triggerSimulatorRpm (engineConfiguration s))
                              (getRpmMultiplier fw (operationMode s))),
         ResetEngineSnifferIfInTestMode, WeComplexInit,
         IncrementGlobalConfigurationVersion ''extTrg'']"
    by (simp add: calls_since_def enableExternalTriggerStimulator_def
        calls_startSimulatedTriggerSignal [OF n])
  show "hasInitTriggerEmulator (enableExternalTriggerStimulator fw s)"
    using n by (simp add: enableExternalTriggerStimulator_def startSimulatedTriggerSignal_def Let_def)
qed

lemma bench_running:
  "hasInitTriggerEmulator (enableTriggerStimulator bench_firmware False bench_emulator)"
  "directSelfStimulation (enableTriggerStimulator bench_firmware False bench_emulator)"
  by (simp_all add: enableTriggerStimulator_def startSimulatedTriggerSignal_def Let_def
      bench_emulator_def)

theorem enable_other_mode_keeps_timing_witness:
  "hasInitTriggerEmulator (enableTriggerStimulator bench_firmware False bench_emulator)
   \<and> calls_since (enableTriggerStimulator bench_firmware False bench_emulator)
        (enableExternalTriggerStimulator bench_firmware
           (enableTriggerStimulator bench_firmware False bench_emulator))
       = [IncrementGlobalConfigurationVersion ''extTrg'']
   \<and> \<not> hasInitTriggerEmulator bench_emulator
   \<and> hasInitTriggerEmulator (enableExternalTriggerStimulator bench_firmware bench_emulator)"
  using enable_other_mode_keeps_timing
      [of "enableTriggerStimulator bench_firmware False bench_emulator" bench_firmware]
    enable_other_mode_keeps_timing [of bench_emulator bench_firmware]
    bench_running
  by (simp add: calls_since_def) (simp add: bench_emulator_def)

text \<open>
  Claim C3 as stated fails: after self-stimulation was enabled on the bench
  emulator, enabling external stimulation makes one call, the bump of the global
  configuration version; the frequency is not applied again and the scheduler is
  not initialised again.
\<close>

theorem enable_other_mode_restart_counterexample:
  "hasInitTriggerEmulator (enableTriggerStimulator bench_firmware False bench_emulator)
   \<and> directSelfStimulation (enableTriggerStimulator bench_firmware False bench_emulator)
   \<and> calls_since (enableTriggerStimulator bench_firmware False bench_emulator)
        (enableExternalTriggerStimulator bench_firmware
           (enableTriggerStimulator bench_firmware False bench_emulator))
       = [IncrementGlobalConfigurationVersion ''extTrg'']
   \<and> WeComplexInit \<notin> set (calls_since (enableTriggerStimulator bench_firmware False bench_emulator)
        (enableExternalTriggerStimulator bench_firmware
           (enableTriggerStimulator bench_firmware False bench_emulator)))"
proof -
  have "calls_since (enableTriggerStimulator bench_firmware False bench_emulator)
        (enableExternalTriggerStimulator bench_firmware
           (enableTriggerStimulator bench_firmware False bench_emulator))
       = [IncrementGlobalConfigurationVersion ''extTrg'']"
    by (simp add: calls_since_def enableExternalTriggerStimulator_def Let_def
        startSimulatedTriggerSignal_initialized [OF bench_running(1)])
  then show ?thesis
    using bench_running by simp
qed

lemma startTriggerEmulatorPins_loop_unfold:
  "startTriggerEmulatorPins_loop fw i s =
     (if i < PWM_PHASE_MAX_WAVE_PER_PWM fw then
        (if i < length (triggerSimulatorPins (engineConfiguration s)) then
           startTriggerEmulatorPins_loop fw (Suc i)
             ((if EFI_PROD_CODE fw \<and> isConfigurationChanged_triggerSimulatorPins fw i
               then (\<lambda>t. t\<lparr>calls := calls t @ [InitPin i (triggerSimulatorPins (engineConfiguration s) ! i)]\<rparr>)
               else (\<lambda>t. t))
              (if isBrainPinValid fw (triggerSimulatorPins (engineConfiguration s) ! i)
               then s\<lparr>hasStimPins := True\<rparr> else s))
         else Inl OutOfBounds)
      else Inr s)"
  by (subst startTriggerEmulatorPins_loop.simps) (simp add: Let_def)

lemma startTriggerEmulatorPins_loop_result:
  assumes "PWM_PHASE_MAX_WAVE_PER_PWM fw \<le> length (triggerSimulatorPins (engineConfiguration s))"
  shows "\<exists>s'. startTriggerEmulatorPins_loop fw i s = Inr s'
           \<and> engineConfiguration s' = engineConfiguration s
           \<and> hasStimPins s' =
               (hasStimPins s \<or> (\<exists>j. i \<le> j \<and> j < PWM_PHASE_MAX_WAVE_PER_PWM fw
                    \<and> isBrainPinValid fw (triggerSimulatorPins (engineConfiguration s) ! j)))"
  using assms
proof (induction "PWM_PHASE_MAX_WAVE_PER_PWM fw - i" arbitrary: i s)
  case 0
  then have "\<not> i < PWM_PHASE_MAX_WAVE_PER_PWM fw" by simp
  then show ?case
    by (subst startTriggerEmulatorPins_loop_unfold) auto
next
  case (Suc d)
  then have lt: "i < PWM_PHASE_MAX_WAVE_PER_PWM fw" by simp
  have d: "d = PWM_PHASE_MAX_WAVE_PER_PWM fw - Suc i" using Suc.hyps(2) by simp
  define pins where "pins = triggerSimulatorPins (engineConfiguration s)"
  define t where "t =
     (if EFI_PROD_CODE fw \<and> isConfigurationChanged_triggerSimulatorPins fw i
      then (\<lambda>t. t\<lparr>calls := calls t @ [InitPin i (pins ! i)]\<rparr>)
      else (\<lambda>t. t))
     (if isBrainPinValid fw (pins ! i) then s\<lparr>hasStimPins := True\<rparr> else s)"
  have cfg: "engineConfiguration t = engineConfiguration s"
    by (simp add: t_def)
  have stim: "hasStimPins t = (hasStimPins s \<or> isBrainPinValid fw (pins ! i))"
    by (simp add: t_def)
  have len: "PWM_PHASE_MAX_WAVE_PER_PWM fw \<le> length (triggerSimulatorPins (engineConfiguration t))"
    using Suc.prems cfg by simp
  obtain s' where s': "startTriggerEmulatorPins_loop fw (Suc i) t = Inr s'"
    "engineConfiguration s' = engineConfiguration t"
    "hasStimPins s' = (hasStimPins t \<or> (\<exists>j. Suc i \<le> j \<and> j < PWM_PHASE_MAX_WAVE_PER_PWM fw
         \<and> isBrainPinValid fw (triggerSimulatorPins (engineConfiguration t) ! j)))"
    using Suc.hyps(1) [OF d len] by blast
  have step: "startTriggerEmulatorPins_loop fw i s = startTriggerEmulatorPins_loop fw (Suc i) t"
    using lt Suc.prems
    by (subst startTriggerEmulatorPins_loop_unfold) (simp add: t_def pins_def)
  have ex: "(\<exists>j. i \<le> j \<and> j < PWM_PHASE_MAX_WAVE_PER_PWM fw \<and> isBrainPinValid fw (pins ! j))
        \<longleftrightarrow> (isBrainPinValid fw (pins ! i)
             \<or> (\<exists>j. Suc i \<le> j \<and> j < PWM_PHASE_MAX_WAVE_PER_PWM fw \<and> isBrainPinValid fw (pins ! j)))"
    (is "?l \<longleftrightarrow> ?r")
  proof
    assume ?l
    then obtain j where j: "i \<le> j" "j < PWM_PHASE_MAX_WAVE_PER_PWM fw" "isBrainPinValid fw (pins ! j)"
      by blast
    show ?r
    proof (cases "j = i")
      case True
      with j(3) show ?thesis by simp
    next
      case False
      with j(1) have "Suc i \<le> j" by simp
      with j(2,3) show ?thesis by blast
    qed
  next
    assume ?r
    then show ?l
    proof
      assume "isBrainPinValid fw (pins ! i)"
      with lt show ?l by blast
    next
      assume "\<exists>j. Suc i \<le> j \<and> j < PWM_PHASE_MAX_WAVE_PER_PWM fw \<and> isBrainPinValid fw (pins ! j)"
      then obtain j where "Suc i \<le> j" "j < PWM_PHASE_MAX_WAVE_PER_PWM fw" "isBrainPinValid fw (pins ! j)"
        by blast
      then have "i \<le> j \<and> j < PWM_PHASE_MAX_WAVE_PER_PWM fw \<and> isBrainPinValid fw (pins ! j)"
        by simp
      then show ?l by blast
    qed
  qed
  have "hasStimPins s' = (hasStimPins t \<or> (\<exists>j. Suc i \<le> j \<and> j < PWM_PHASE_MAX_WAVE_PER_PWM fw
         \<and> isBrainPinValid fw (pins ! j)))"
    using s'(3) by (simp only: cfg pins_def)
  then have "hasStimPins s' = (hasStimPins s \<or> (\<exists>j. i \<le> j \<and> j < PWM_PHASE_MAX_WAVE_PER_PWM fw
                    \<and> isBrainPinValid fw (pins ! j)))"
    by (simp only: stim ex disj_assoc)
  then show ?case
    using step s'(1,2) cfg by (simp add: pins_def)
qed

text \<open>
  Claim C6. The tick callback routes by run mode. With direct self-stimulation
  active it forwards the edges of \<open>handleEmulatorCallback\<close> to the shaft-position
  handler within the call and makes no pin write, whatever \<open>hasStimPins\<close> is.
  Otherwise the pin state is applied (in the production build) when \<open>hasStimPins\<close>
  is set, and nothing at all is done when it is not set. \<open>startTriggerEmulatorPins\<close>
  sets \<open>hasStimPins\<close> exactly when the pin of at least one channel is valid, so
  external stimulation without a bound pin performs no write.
\<close>

theorem emulatorApplyPinState_routes:
  "(directSelfStimulation s \<longrightarrow>
      emulatorApplyPinState fw stateIndex state now s =
        (case handleEmulatorCallback fw (engineConfiguration s)
                (multiChannelStateSequence state) stateIndex now of
           Inl e \<Rightarrow> Inl e
         | Inr sent \<Rightarrow> Inr (s\<lparr>calls := calls s @ sent\<rparr>))
      \<and> emulatorApplyPinState fw stateIndex state now (s\<lparr>hasStimPins := b\<rparr>) =
          map_sum id (\<lambda>t. t\<lparr>hasStimPins := b\<rparr>) (emulatorApplyPinState fw stateIndex state now s))
   \<and> (\<not> directSelfStimulation s \<and> hasStimPins s \<and> EFI_PROD_CODE fw \<longrightarrow>
      emulatorApplyPinState fw stateIndex state now s =
        Inr (s\<lparr>calls := calls s @ [ApplyPinState stateIndex]\<rparr>))
   \<and> (\<not> directSelfStimulation s \<and> \<not> hasStimPins s \<longrightarrow>
      emulatorApplyPinState fw stateIndex state now s = Inr s)
   \<and> (PWM_PHASE_MAX_WAVE_PER_PWM fw \<le> length (triggerSimulatorPins (engineConfiguration s)) \<longrightarrow>
      (\<exists>s'. startTriggerEmulatorPins fw s = Inr s'
         \<and> hasStimPins s' =
             (\<exists>j. j < PWM_PHASE_MAX_WAVE_PER_PWM fw
                \<and> isBrainPinValid fw (triggerSimulatorPins (engineConfiguration s) ! j))))"
proof (intro conjI impI)
  assume "directSelfStimulation s"
  then show "emulatorApplyPinState fw stateIndex state now s =
        (case handleEmulatorCallback fw (engineConfiguration s)
                (multiChannelStateSequence state) stateIndex now of
           Inl e \<Rightarrow> Inl e
         | Inr sent \<Rightarrow> Inr (s\<lparr>calls := calls s @ sent\<rparr>))"
    by (simp add: emulatorApplyPinState_def)
next
  assume "directSelfStimulation s"
  then show "emulatorApplyPinState fw stateIndex state now (s\<lparr>hasStimPins := b\<rparr>) =
          map_sum id (\<lambda>t. t\<lparr>hasStimPins := b\<rparr>) (emulatorApplyPinState fw stateIndex state now s)"
    by (cases "handleEmulatorCallback fw (engineConfiguration s)
                 (multiChannelStateSequence state) stateIndex now")
      (simp_all add: emulatorApplyPinState_def)
next
  assume "\<not> directSelfStimulation s \<and> hasStimPins s \<and> EFI_PROD_CODE fw"
  then show "emulatorApplyPinState fw stateIndex state now s =
        Inr (s\<lparr>calls := calls s @ [ApplyPinState stateIndex]\<rparr>)"
    by (simp add: emulatorApplyPinState_def)
next
  assume "\<not> directSelfStimulation s \<and> \<not> hasStimPins s"
  then show "emulatorApplyPinState fw stateIndex state now s = Inr s"
    by (simp add: emulatorApplyPinState_def)
next
  assume "PWM_PHASE_MAX_WAVE_PER_PWM fw \<le> length (triggerSimulatorPins (engineConfiguration s))"
  then have "PWM_PHASE_MAX_WAVE_PER_PWM fw
             \<le> length (triggerSimulatorPins (engineConfiguration (s\<lparr>hasStimPins := False\<rparr>)))"
    by simp
  from startTriggerEmulatorPins_loop_result [OF this, of 0]
  obtain s' where "startTriggerEmulatorPins_loop fw 0 (s\<lparr>hasStimPins := False\<rparr>) = Inr s'"
    "hasStimPins s' = (\<exists>j. j < PWM_PHASE_MAX_WAVE_PER_PWM fw
                \<and> isBrainPinValid fw (triggerSimulatorPins (engineConfiguration s) ! j))"
    by auto
  then have "startTriggerEmulatorPins fw s = Inr s'
         \<and> hasStimPins s' =
             (\<exists>j. j < PWM_PHASE_MAX_WAVE_PER_PWM fw
                \<and> isBrainPinValid fw (triggerSimulatorPins (engineConfiguration s) ! j))"
    by (simp add: startTriggerEmulatorPins_def)
  then show "\<exists>s'. startTriggerEmulatorPins fw s = Inr s'
         \<and> hasStimPins s' =
             (\<exists>j. j < PWM_PHASE_MAX_WAVE_PER_PWM fw
                \<and> isBrainPinValid fw (triggerSimulatorPins (engineConfiguration s) ! j))"
    by (rule exI)
qed

lemma bench_callback:
  "handleEmulatorCallback bench_firmware bench_configuration scenario_table 1 777
     = Inr [HandleShaftSignal 0 False 777]"
proof -
  have h: "phaseCount scenario_table \<noteq> 0" "INT_MIN \<le> 1"
    "1 + uint (phaseCount scenario_table) \<le> INT_MAX"
    by (simp_all add: scenario_table_def INT_MIN_def INT_MAX_def)
  have l: "[0 ..< PWM_PHASE_MAX_WAVE_PER_PWM bench_firmware] = [0, 1]"
    by (simp add: bench_firmware_def upt_rec)
  have lv: "getChannelState scenario_table 0 1 = RISE"
    by (simp add: scenario_table_def scenario_levels_def)
  show ?thesis
    using handleEmulatorCallback_loop_dispatch
      [OF h, of bench_firmware bench_configuration 777 0 "[]"]
    by (simp add: handleEmulatorCallback_def l needEvent_scenario lv bench_configuration_def)
qed

lemma bench_pins_unbound:
  "\<not> (\<exists>j. j < PWM_PHASE_MAX_WAVE_PER_PWM bench_firmware
         \<and> isBrainPinValid bench_firmware
             (triggerSimulatorPins (engineConfiguration bench_emulator) ! j))"
proof -
  have k: "PWM_PHASE_MAX_WAVE_PER_PWM bench_firmware = 2"
    by (simp add: bench_firmware_def)
  have pins: "triggerSimulatorPins (engineConfiguration bench_emulator) = [0, 0]"
    by (simp add: bench_emulator_def bench_configuration_def)
  have valid: "isBrainPinValid bench_firmware p = (p \<noteq> 0)" for p
    by (simp add: bench_firmware_def)
  have "[0, 0 :: nat] ! j = 0" if "j < 2" for j
  proof -
    from that have "j = 0 \<or> j = Suc 0" by linarith
    then show ?thesis by (rule disjE) simp_all
  qed
  then have "\<not> (\<exists>j. j < 2 \<and> [0, 0 :: nat] ! j \<noteq> 0)"
    by simp
  then show ?thesis
    by (simp only: k pins valid) simp
qed



theorem emulatorApplyPinState_routes_witness:
  "directSelfStimulation (bench_emulator\<lparr>directSelfStimulation := True\<rparr>)
   \<and> emulatorApplyPinState bench_firmware 1 (bench_pwm\<lparr>multiChannelStateSequence := scenario_table\<rparr>) 777
        (bench_emulator\<lparr>directSelfStimulation := True\<rparr>)
       = Inr (bench_emulator\<lparr>directSelfStimulation := True,
                 calls := [HandleShaftSignal 0 False 777]\<rparr>)
   \<and> \<not> directSelfStimulation (bench_emulator\<lparr>hasStimPins := True\<rparr>)
   \<and> hasStimPins (bench_emulator\<lparr>hasStimPins := True\<rparr>) \<and> EFI_PROD_CODE bench_firmware
   \<and> emulatorApplyPinState bench_firmware 1 bench_pwm 777 (bench_emulator\<lparr>hasStimPins := True\<rparr>)
       = Inr (bench_emulator\<lparr>hasStimPins := True, calls := [ApplyPinState 1]\<rparr>)
   \<and> \<not> directSelfStimulation bench_emulator \<and> \<not> hasStimPins bench_emulator
   \<and> emulatorApplyPinState bench_firmware 1 bench_pwm 777 bench_emulator = Inr bench_emulator
   \<and> PWM_PHASE_MAX_WAVE_PER_PWM bench_firmware
       \<le> length (triggerSimulatorPins (engineConfiguration bench_emulator))
   \<and> (\<exists>s'. startTriggerEmulatorPins bench_firmware bench_emulator = Inr s' \<and> \<not> hasStimPins s')"
proof -
  have cfg: "engineConfiguration bench_emulator = bench_configuration"
    and nd: "\<not> directSelfStimulation bench_emulator"
    and ns: "\<not> hasStimPins bench_emulator"
    and nc: "calls bench_emulator = []"
    by (simp_all add: bench_emulator_def)
  have prod: "EFI_PROD_CODE bench_firmware"
    by (simp add: bench_firmware_def)
  have len: "PWM_PHASE_MAX_WAVE_PER_PWM bench_firmware
       \<le> length (triggerSimulatorPins (engineConfiguration bench_emulator))"
    by (simp add: cfg bench_firmware_def bench_configuration_def)
  have h1: "directSelfStimulation (bench_emulator\<lparr>directSelfStimulation := True\<rparr>)"
    by simp
  have a: "emulatorApplyPinState bench_firmware 1
             (bench_pwm\<lparr>multiChannelStateSequence := scenario_table\<rparr>) 777
             (bench_emulator\<lparr>directSelfStimulation := True\<rparr>)
           = Inr (bench_emulator\<lparr>directSelfStimulation := True,
                    calls := [HandleShaftSignal 0 False 777]\<rparr>)"
    using emulatorApplyPinState_routes
      [of "bench_emulator\<lparr>directSelfStimulation := True\<rparr>" bench_firmware 1
          "bench_pwm\<lparr>multiChannelStateSequence := scenario_table\<rparr>" 777]
    by (simp add: cfg nc bench_callback)
  have h2: "\<not> directSelfStimulation (bench_emulator\<lparr>hasStimPins := True\<rparr>)"
    "hasStimPins (bench_emulator\<lparr>hasStimPins := True\<rparr>)"
    using nd by simp_all
  have b: "emulatorApplyPinState bench_firmware 1 bench_pwm 777 (bench_emulator\<lparr>hasStimPins := True\<rparr>)
       = Inr (bench_emulator\<lparr>hasStimPins := True, calls := [ApplyPinState 1]\<rparr>)"
    using emulatorApplyPinState_routes
      [of "bench_emulator\<lparr>hasStimPins := True\<rparr>" bench_firmware 1 bench_pwm 777] h2 prod
    by (simp add: nc)
  have c: "emulatorApplyPinState bench_firmware 1 bench_pwm 777 bench_emulator = Inr bench_emulator"
    using emulatorApplyPinState_routes [of bench_emulator bench_firmware 1 bench_pwm 777] nd ns
    by simp
  have "\<exists>s'. startTriggerEmulatorPins bench_firmware bench_emulator = Inr s'
         \<and> hasStimPins s' =
             (\<exists>j. j < PWM_PHASE_MAX_WAVE_PER_PWM bench_firmware
                \<and> isBrainPinValid bench_firmware
                      (triggerSimulatorPins (engineConfiguration bench_emulator) ! j))"
    using emulatorApplyPinState_routes [of bench_emulator bench_firmware 1 bench_pwm 777] len
    by (simp only:)
  then obtain s' where s': "startTriggerEmulatorPins bench_firmware bench_emulator = Inr s'"
    "hasStimPins s' =
             (\<exists>j. j < PWM_PHASE_MAX_WAVE_PER_PWM bench_firmware
                \<and> isBrainPinValid bench_firmware
                      (triggerSimulatorPins (engineConfiguration bench_emulator) ! j))"
    by (elim exE conjE)
  from s'(2) bench_pins_unbound have "\<not> hasStimPins s'"
    by (simp only:) simp
  with s'(1) have d: "\<exists>s'. startTriggerEmulatorPins bench_firmware bench_emulator = Inr s' \<and> \<not> hasStimPins s'"
    by (intro exI conjI)
  from h1 a h2 prod b nd ns c len d show ?thesis
    by (intro conjI)
qed

section \<open>Properties of the floating-point model\<close>

lemma bitlen_numeral [simp]:
  "bitlen 0 = 0"
  "bitlen (Suc 0) = Suc 0"
  "bitlen (numeral k) = Suc (bitlen (numeral k div 2))"
  by (simp_all add: bitlen.simps)

lemma bitlen_bounds:
  assumes "0 < n"
  shows "2 ^ (bitlen n - 1) \<le> n \<and> n < 2 ^ bitlen n"
  using assms
proof (induction n rule: bitlen.induct)
  case (1 n)
  show ?case
  proof (cases "n div 2 = 0")
    case True
    with "1.prems" have "n = 1" by linarith
    then show ?thesis by (simp add: bitlen.simps [of 1] bitlen.simps [of 0])
  next
    case False
    then have pos: "0 < n div 2" by simp
    from "1.IH" [OF _ pos] "1.prems"
    have ih: "2 ^ (bitlen (n div 2) - 1) \<le> n div 2" "n div 2 < 2 ^ bitlen (n div 2)"
      by simp_all
    have bl: "bitlen n = Suc (bitlen (n div 2))"
      using "1.prems" by (subst bitlen.simps) simp
    have blpos: "0 < bitlen (n div 2)"
      using pos by (subst bitlen.simps) simp
    then have e: "(2::nat) ^ (bitlen n - 1) = 2 * 2 ^ (bitlen (n div 2) - 1)"
      using bl by (cases "bitlen (n div 2)") simp_all
    have "2 * 2 ^ (bitlen (n div 2) - 1) \<le> 2 * (n div 2)"
      using ih(1) by simp
    also have "\<dots> \<le> n" by simp
    finally have lower: "2 ^ (bitlen n - 1) \<le> n" using e by simp
    have "n < 2 * (n div 2) + 2" by linarith
    also have "\<dots> \<le> 2 * 2 ^ bitlen (n div 2)"
      using ih(2) by simp
    finally have upper: "n < 2 ^ bitlen n" using bl by simp
    from lower upper show ?thesis by simp
  qed
qed

lemma ilog2_bounds:
  assumes "0 < x"
  shows "2 powi (ilog2 x) \<le> x \<and> x < 2 powi (ilog2 x + 1)"
proof -
  obtain p q where pq: "quotient_of x = (p, q)" by (cases "quotient_of x")
  have q: "0 < q" using pq by (rule quotient_of_denom_pos)
  have x: "x = of_int p / of_int q" using pq by (rule quotient_of_div)
  have p: "0 < p"
    using assms q x by (simp add: zero_less_divide_iff)
  define bp where "bp = bitlen (nat p)"
  define bq where "bq = bitlen (nat q)"
  define d where "d = int bp - int bq"
  have pb: "2 ^ (bp - 1) \<le> nat p" "nat p < 2 ^ bp"
    using bitlen_bounds [of "nat p"] p by (simp_all add: bp_def)
  have qb: "2 ^ (bq - 1) \<le> nat q" "nat q < 2 ^ bq"
    using bitlen_bounds [of "nat q"] q by (simp_all add: bq_def)
  have bppos: "0 < bp" using pb(2) p by (cases bp) simp_all
  have bqpos: "0 < bq" using qb(2) q by (cases bq) simp_all
  have pr: "(2::rat) ^ (bp - 1) \<le> of_int p" "(of_int p :: rat) < 2 ^ bp"
  proof -
    have "(of_nat (2 ^ (bp - 1)) :: rat) \<le> of_nat (nat p)"
      using pb(1) by (simp only: of_nat_le_iff)
    then show "(2::rat) ^ (bp - 1) \<le> of_int p" using p by simp
    have "(of_nat (nat p) :: rat) < of_nat (2 ^ bp)"
      using pb(2) by (simp only: of_nat_less_iff)
    then show "(of_int p :: rat) < 2 ^ bp" using p by simp
  qed
  have qr: "(2::rat) ^ (bq - 1) \<le> of_int q" "(of_int q :: rat) < 2 ^ bq"
  proof -
    have "(of_nat (2 ^ (bq - 1)) :: rat) \<le> of_nat (nat q)"
      using qb(1) by (simp only: of_nat_le_iff)
    then show "(2::rat) ^ (bq - 1) \<le> of_int q" using q by simp
    have "(of_nat (nat q) :: rat) < of_nat (2 ^ bq)"
      using qb(2) by (simp only: of_nat_less_iff)
    then show "(of_int q :: rat) < 2 ^ bq" using q by simp
  qed
  have qpos: "(0::rat) < of_int q" using q by simp
  have bq1: "(2::rat) powi (int bq - 1) = 2 ^ (bq - 1)"
  proof -
    have "int bq - 1 = int (bq - 1)" using bqpos by simp
    then show ?thesis by (simp only: power_int_of_nat)
  qed
  have bp1: "(2::rat) powi (int bp - 1) = 2 ^ (bp - 1)"
  proof -
    have "int bp - 1 = int (bp - 1)" using bppos by simp
    then show ?thesis by (simp only: power_int_of_nat)
  qed
  have upper: "x < 2 powi (d + 1)"
  proof -
    have "(2::rat) powi (d + 1) * 2 powi (int bq - 1) = 2 powi ((d + 1) + (int bq - 1))"
      by (rule power_int_add [symmetric]) simp
    also have "(d + 1) + (int bq - 1) = int bp" by (simp add: d_def)
    finally have e: "(2::rat) ^ bp = 2 powi (d + 1) * 2 ^ (bq - 1)"
      by (simp only: bq1 power_int_of_nat)
    have "of_int p < (2::rat) ^ bp" by (rule pr(2))
    also have "\<dots> = 2 powi (d + 1) * 2 ^ (bq - 1)" by (rule e)
    also have "\<dots> \<le> 2 powi (d + 1) * of_int q"
      using qr(1) by (intro mult_left_mono) simp_all
    finally have "of_int p / of_int q < (2::rat) powi (d + 1)"
      using qpos by (simp add: pos_divide_less_eq)
    then show ?thesis by (simp add: x)
  qed
  have lower: "2 powi (d - 1) \<le> x"
  proof -
    have "(2::rat) powi (d - 1) * 2 powi (int bq) = 2 powi ((d - 1) + int bq)"
      by (rule power_int_add [symmetric]) simp
    also have "(d - 1) + int bq = int bp - 1" by (simp add: d_def)
    finally have e: "(2::rat) powi (d - 1) * 2 ^ bq = 2 ^ (bp - 1)"
      by (simp only: bp1 power_int_of_nat)
    have "(2::rat) powi (d - 1) * of_int q \<le> 2 powi (d - 1) * 2 ^ bq"
      using qr(2) by (intro mult_left_mono) simp_all
    also have "\<dots> = 2 ^ (bp - 1)" by (rule e)
    also have "\<dots> \<le> of_int p" by (rule pr(1))
    finally have "(2::rat) powi (d - 1) \<le> of_int p / of_int q"
      using qpos by (simp add: pos_le_divide_eq)
    then show ?thesis by (simp add: x)
  qed
  have il: "ilog2 x = (if 2 powi d \<le> x then d else d - 1)"
    by (simp add: ilog2_def pq d_def bp_def bq_def Let_def)
  show ?thesis
  proof (cases "2 powi d \<le> x")
    case True
    with il upper show ?thesis by simp
  next
    case False
    with il lower show ?thesis by simp
  qed
qed


lemma round_half_even_ge_floor: "\<lfloor>x\<rfloor> \<le> round_half_even x"
  by (simp add: round_half_even_def Let_def)

lemma round_half_even_ge_one:
  assumes "1 \<le> x"
  shows "1 \<le> round_half_even x"
proof -
  have "1 \<le> \<lfloor>x\<rfloor>" using assms by (simp add: le_floor_iff)
  then show ?thesis using round_half_even_ge_floor [of x] by linarith
qed

lemma round_to_minus: "round_to p (- x) = - round_to p x"
  by (simp add: round_to_def Let_def)

lemma round_to_positive:
  assumes "0 < p" and "0 < x"
  shows "0 < round_to p x"
proof -
  define e where "e = ilog2 x"
  define q :: rat where "q = 2 powi (e - int p + 1)"
  have qpos: "0 < q" by (simp add: q_def)
  have "2 powi e \<le> x" using ilog2_bounds [OF assms(2)] by (simp add: e_def)
  moreover have "(2::rat) powi e = 2 powi (int p - 1) * q"
  proof -
    have "(2::rat) powi (int p - 1) * 2 powi (e - int p + 1) = 2 powi ((int p - 1) + (e - int p + 1))"
      by (rule power_int_add [symmetric]) simp
    then show ?thesis by (simp add: q_def)
  qed
  ultimately have "2 powi (int p - 1) * q \<le> x" by simp
  then have "2 powi (int p - 1) \<le> x / q"
    using qpos by (simp add: pos_le_divide_eq)
  moreover have "(1::rat) \<le> 2 powi (int p - 1)"
    using assms(1) by (intro one_le_power_int) simp_all
  ultimately have "1 \<le> x / q" by linarith
  then have "1 \<le> round_half_even (x / q)" by (rule round_half_even_ge_one)
  then have "(0::rat) < of_int (round_half_even (x / q))" by simp
  then have "0 < of_int (round_half_even (x / q)) * q"
    using qpos by (intro mult_pos_pos)
  moreover have "round_to p x = of_int (round_half_even (x / q)) * q"
    using assms(2) by (simp add: round_to_def Let_def q_def e_def)
  ultimately show ?thesis by simp
qed

lemma round_to_negative:
  assumes "0 < p" and "x < 0"
  shows "round_to p x < 0"
proof -
  have "0 < round_to p (- x)" using assms by (intro round_to_positive) simp_all
  then show ?thesis by (simp add: round_to_minus)
qed

lemma round_to_zero [simp]: "round_to p 0 = 0"
  by (simp add: round_to_def)

lemma quotient_of_half: "quotient_of (1 / 2) = (1, 2)"
proof -
  have e: "(1 / 2 :: rat) = Fract 1 2" by (simp add: Fract_of_int_quotient)
  have "quotient_of (Fract 1 2) = (1, 2)"
    by (simp add: quotient_of_Fract Rat.normalize_def)
  then show ?thesis by (simp only: e)
qed

lemma round_to_half: "round_to 24 (1 / 2) = 1 / 2"
  by (simp add: round_to_def ilog2_def round_half_even_def quotient_of_half)

lemma round_to_eval:
  "round_to 24 1 = 1"
  "round_to 24 6000 = 6000" "round_to 24 3000 = 3000" "round_to 24 (- 60) = - 60"
  "round_to 53 6000 = 6000" "round_to 53 3000 = 3000" "round_to 53 (- 60) = - 60"
  "round_to 53 100 = 100" "round_to 53 50 = 50" "round_to 53 (- 1) = - 1"
  "round_to 24 100 = 100" "round_to 24 50 = 50" "round_to 24 (- 1) = - 1"
  by (simp_all add: round_to_def ilog2_def round_half_even_def)

lemma rPerSecond_eval:
  "rPerSecond 6000 (Finite 1) = Finite 100"
  "rPerSecond 3000 (Finite 1) = Finite 50"
  "rPerSecond (- 60) (Finite 1) = Finite (- 1)"
  by (simp_all add: rPerSecond_def int_to_float_def float_mul_def float_to_double_def
      double_div_literal_def double_to_float_def FLT_MANT_DIG_def DBL_MANT_DIG_def round_to_eval)

lemma getRpmMultiplier_eval:
  "getRpmMultiplier fw FOUR_STROKE_CRANK_SENSOR = Finite 1"
  "getRpmMultiplier fw FOUR_STROKE_CAM_SENSOR = Finite (1 / 2)"
  "getRpmMultiplier fw (OTHER_MODE k) = Finite 1"
  by (simp_all add: getRpmMultiplier_def int_to_float_def double_to_float_def FLT_MANT_DIG_def
      round_to_eval round_to_half)


lemma round_half_even_close: "\<bar>of_int (round_half_even x) - x\<bar> \<le> 1 / 2"
proof -
  define f where "f = \<lfloor>x\<rfloor>"
  define r where "r = x - of_int f"
  have r: "0 \<le> r" "r < 1"
    unfolding r_def f_def by linarith+
  have x: "x = of_int f + r" by (simp add: r_def)
  have "round_half_even x = (if r < 1 / 2 then f else if 1 / 2 < r then f + 1
                             else if even f then f else f + 1)"
    by (simp add: round_half_even_def Let_def f_def r_def)
  then consider "round_half_even x = f" "r \<le> 1 / 2" | "round_half_even x = f + 1" "1 / 2 \<le> r"
    by (cases "r < 1 / 2"; cases "1 / 2 < r"; cases "even f") auto
  then show ?thesis
  proof cases
    case 1
    then show ?thesis using r x by simp
  next
    case 2
    then show ?thesis using r x by simp
  qed
qed

lemma round_to_error:
  "\<bar>round_to p x - x\<bar> \<le> \<bar>x\<bar> / 2 ^ p"
proof (cases "x = 0")
  case True
  then show ?thesis by simp
next
  case False
  define a where "a = \<bar>x\<bar>"
  define e where "e = ilog2 a"
  define q :: rat where "q = 2 powi (e - int p + 1)"
  define m :: rat where "m = of_int (round_half_even (a / q))"
  have apos: "0 < a" using False by (simp add: a_def)
  have qpos: "0 < q" by (simp add: q_def)
  have rt: "round_to p x = sgn x * m * q"
    using False by (simp add: round_to_def Let_def q_def e_def a_def m_def)
  have xs: "x = sgn x * a"
    by (simp add: a_def sgn_mult_abs)
  have "round_to p x - x = sgn x * (m * q - a)"
    by (subst (2) xs) (simp add: rt algebra_simps)
  then have "\<bar>round_to p x - x\<bar> = \<bar>m * q - a\<bar>"
    using False by (simp add: abs_mult abs_sgn_eq)
  also have "m * q - a = (m - a / q) * q"
    using qpos by (simp add: algebra_simps)
  also have "\<bar>(m - a / q) * q\<bar> = \<bar>m - a / q\<bar> * q"
    using qpos by (simp add: abs_mult)
  also have "\<dots> \<le> (1 / 2) * q"
    using round_half_even_close [of "a / q"] qpos
    unfolding m_def by (intro mult_right_mono) simp_all
  also have "(1 / 2) * q = 2 powi e / 2 ^ p"
  proof -
    have "(2::rat) powi (e - int p + 1) = 2 powi (e + (1 - int p))"
      by (simp add: algebra_simps)
    also have "\<dots> = 2 powi e * 2 powi (1 - int p)"
      by (rule power_int_add) simp
    also have "(2::rat) powi (1 - int p) = 2 powi 1 * 2 powi (- int p)"
      using power_int_add [of "2::rat" 1 "- int p"] by simp
    also have "(2::rat) powi (- int p) = 1 / 2 ^ p"
      by (simp add: power_int_minus field_simps)
    finally show ?thesis by (simp add: q_def)
  qed
  also have "\<dots> \<le> a / 2 ^ p"
    using ilog2_bounds [OF apos] by (simp add: e_def divide_right_mono)
  finally show ?thesis by (simp add: a_def)
qed

lemma error_chain:
  fixes u v w k c :: rat
  assumes "\<bar>u - v\<bar> \<le> k * \<bar>v\<bar>" and "\<bar>w - u\<bar> \<le> c * \<bar>u\<bar>" and "0 \<le> c"
  shows "\<bar>w - v\<bar> \<le> (k + c + k * c) * \<bar>v\<bar>"
proof -
  have "\<bar>u\<bar> \<le> \<bar>v\<bar> + \<bar>u - v\<bar>" by linarith
  then have "\<bar>u\<bar> \<le> (1 + k) * \<bar>v\<bar>" using assms(1) by (simp add: algebra_simps)
  then have "c * \<bar>u\<bar> \<le> c * ((1 + k) * \<bar>v\<bar>)"
    using assms(3) by (rule mult_left_mono)
  then have "\<bar>w - u\<bar> \<le> (c + k * c) * \<bar>v\<bar>"
    using assms(2) by (simp add: algebra_simps)
  moreover have "\<bar>w - v\<bar> \<le> \<bar>w - u\<bar> + \<bar>u - v\<bar>" by linarith
  ultimately show ?thesis using assms(1) by (simp add: algebra_simps)
qed


lemma rPerSecond_close:
  "\<exists>x. rPerSecond rpm (Finite m) = Finite x
       \<and> \<bar>x - of_int rpm * m / 60\<bar> \<le> \<bar>of_int rpm * m / 60\<bar> / 2 ^ 22"
proof -
  define eps :: rat where "eps = 1 / 2 ^ 24"
  define del :: rat where "del = 1 / 2 ^ 53"
  define r1 where "r1 = round_to 24 (of_int rpm)"
  define r2 where "r2 = round_to 24 (r1 * m)"
  define r3 where "r3 = round_to 53 r2"
  define r4 where "r4 = round_to 53 (r3 / 60)"
  define r5 where "r5 = round_to 24 r4"
  define k2 where "k2 = eps + eps + eps * eps"
  define k3 where "k3 = k2 + del + k2 * del"
  define k4 where "k4 = k3 + del + k3 * del"
  define k5 where "k5 = k4 + eps + k4 * eps"
  have eps0: "0 \<le> eps" and del0: "0 \<le> del"
    by (simp_all add: eps_def del_def)
  have val: "rPerSecond rpm (Finite m) = Finite r5"
    by (simp add: rPerSecond_def int_to_float_def float_mul_def float_to_double_def
        double_div_literal_def double_to_float_def FLT_MANT_DIG_def DBL_MANT_DIG_def
        r1_def r2_def r3_def r4_def r5_def)
  have e1: "\<bar>r1 - of_int rpm\<bar> \<le> eps * \<bar>of_int rpm\<bar>"
    using round_to_error [of 24 "of_int rpm"] by (simp add: r1_def eps_def)
  have "\<bar>r1 * m - of_int rpm * m\<bar> = \<bar>r1 - of_int rpm\<bar> * \<bar>m\<bar>"
    by (simp add: abs_mult [symmetric] algebra_simps)
  also have "\<dots> \<le> (eps * \<bar>of_int rpm\<bar>) * \<bar>m\<bar>"
    using e1 by (intro mult_right_mono) simp_all
  finally have a1: "\<bar>r1 * m - of_int rpm * m\<bar> \<le> eps * \<bar>of_int rpm * m\<bar>"
    by (simp add: abs_mult algebra_simps)
  have s2: "\<bar>r2 - r1 * m\<bar> \<le> eps * \<bar>r1 * m\<bar>"
    using round_to_error [of 24 "r1 * m"] by (simp add: r2_def eps_def)
  have e2: "\<bar>r2 - of_int rpm * m\<bar> \<le> k2 * \<bar>of_int rpm * m\<bar>"
    unfolding k2_def by (rule error_chain [OF a1 s2 eps0])
  have s3: "\<bar>r3 - r2\<bar> \<le> del * \<bar>r2\<bar>"
    using round_to_error [of 53 r2] by (simp add: r3_def del_def)
  have e3: "\<bar>r3 - of_int rpm * m\<bar> \<le> k3 * \<bar>of_int rpm * m\<bar>"
    unfolding k3_def by (rule error_chain [OF e2 s3 del0])
  have "\<bar>r3 / 60 - of_int rpm * m / 60\<bar> = \<bar>r3 - of_int rpm * m\<bar> / 60"
    by (simp add: diff_divide_distrib [symmetric])
  also have "\<dots> \<le> (k3 * \<bar>of_int rpm * m\<bar>) / 60"
    using e3 by (intro divide_right_mono) simp_all
  finally have a2: "\<bar>r3 / 60 - of_int rpm * m / 60\<bar> \<le> k3 * \<bar>of_int rpm * m / 60\<bar>"
    by simp
  have s4: "\<bar>r4 - r3 / 60\<bar> \<le> del * \<bar>r3 / 60\<bar>"
    using round_to_error [of 53 "r3 / 60"] by (simp add: r4_def del_def)
  have e4: "\<bar>r4 - of_int rpm * m / 60\<bar> \<le> k4 * \<bar>of_int rpm * m / 60\<bar>"
    unfolding k4_def by (rule error_chain [OF a2 s4 del0])
  have s5: "\<bar>r5 - r4\<bar> \<le> eps * \<bar>r4\<bar>"
    using round_to_error [of 24 r4] by (simp add: r5_def eps_def)
  have e5: "\<bar>r5 - of_int rpm * m / 60\<bar> \<le> k5 * \<bar>of_int rpm * m / 60\<bar>"
    unfolding k5_def by (rule error_chain [OF e4 s5 eps0])
  have k5: "k5 \<le> 1 / 2 ^ 22"
    by (simp add: k5_def k4_def k3_def k2_def eps_def del_def)
  have "k5 * \<bar>of_int rpm * m / 60\<bar> \<le> (1 / 2 ^ 22) * \<bar>of_int rpm * m / 60\<bar>"
    using k5 by (intro mult_right_mono) simp_all
  with e5 have "\<bar>r5 - of_int rpm * m / 60\<bar> \<le> \<bar>of_int rpm * m / 60\<bar> / 2 ^ 22"
    by simp
  with val show ?thesis by blast
qed


lemma round_half_even_of_int: "round_half_even (of_int z) = z"
  by (simp add: round_half_even_def)

lemma round_to_of_int:
  assumes "\<bar>k\<bar> < 2 ^ p"
  shows "round_to p (of_int k) = of_int k"
proof (cases "k = 0")
  case True
  then show ?thesis by simp
next
  case False
  define a :: rat where "a = \<bar>of_int k\<bar>"
  define e where "e = ilog2 a"
  define q :: rat where "q = 2 powi (e - int p + 1)"
  have apos: "0 < a" using False by (simp add: a_def)
  have ak: "a = of_int \<bar>k\<bar>" by (simp add: a_def)
  have "a < 2 ^ p"
  proof -
    have "(of_int \<bar>k\<bar> :: rat) < of_int (2 ^ p)"
      using assms by (simp only: of_int_less_iff)
    then show ?thesis by (simp add: ak)
  qed
  moreover have "2 powi e \<le> a" using ilog2_bounds [OF apos] by (simp add: e_def)
  ultimately have "(2::rat) powi e < 2 powi (int p)" by simp
  then have ep: "e < int p"
    by (intro power_int_le_imp_less_exp [of "2::rat"]) simp_all
  define n where "n = nat (int p - 1 - e)"
  have qn: "q * 2 ^ n = 1"
  proof -
    have "(2::rat) ^ n = 2 powi (int p - 1 - e)"
      using ep by (simp add: n_def power_int_def)
    then have "q * 2 ^ n = 2 powi (e - int p + 1) * 2 powi (int p - 1 - e)"
      by (simp add: q_def)
    also have "\<dots> = 2 powi ((e - int p + 1) + (int p - 1 - e))"
      by (rule power_int_add [symmetric]) simp
    finally show ?thesis by simp
  qed
  have qpos: "0 < q" by (simp add: q_def)
  have "a / q = a * 2 ^ n"
    using qn qpos by (simp add: field_simps)
  also have "\<dots> = of_int (\<bar>k\<bar> * 2 ^ n)" by (simp add: ak)
  finally have "round_half_even (a / q) = \<bar>k\<bar> * 2 ^ n"
    by (simp only: round_half_even_of_int)
  then have "of_int (round_half_even (a / q)) * q = a * (q * 2 ^ n)"
    by (simp add: ak algebra_simps)
  then have m: "of_int (round_half_even (a / q)) * q = a"
    by (simp add: qn)
  have "round_to p (of_int k) = sgn (of_int k) * (of_int (round_half_even (a / q)) * q)"
    using False by (simp add: round_to_def Let_def q_def e_def a_def)
  also have "\<dots> = sgn (of_int k) * a" by (simp only: m)
  also have "\<dots> = of_int k" by (simp add: a_def sgn_mult_abs)
  finally show ?thesis .
qed

lemma int_to_float_exact:
  assumes "\<bar>k\<bar> < 16777216"
  shows "int_to_float k = Finite (of_int k)"
  using assms round_to_of_int [of k 24] by (simp add: int_to_float_def FLT_MANT_DIG_def)


section \<open>Properties of the frequency controller\<close>

lemma calls_since_setTriggerEmulatorRPM:
  "calls_since s (setTriggerEmulatorRPM fw rpm s)
     = [SetFrequency (if rpm = 0 then NaN
                      else rPerSecond rpm (getRpmMultiplier fw (operationMode s))),
        ResetEngineSnifferIfInTestMode]"
  by (simp add: calls_since_def calls_setTriggerEmulatorRPM)

lemma rPerSecond_positive:
  assumes "0 < rpm" and "0 < m"
  shows "\<exists>x. rPerSecond rpm (Finite m) = Finite x \<and> 0 < x"
proof -
  define r1 where "r1 = round_to 24 (of_int rpm)"
  define r2 where "r2 = round_to 24 (r1 * m)"
  define r3 where "r3 = round_to 53 r2"
  define r4 where "r4 = round_to 53 (r3 / 60)"
  define r5 where "r5 = round_to 24 r4"
  have "(0::rat) < of_int rpm" using assms(1) by simp
  then have p1: "0 < r1" unfolding r1_def by (rule round_to_positive [rotated]) simp
  have "0 < r1 * m" using p1 assms(2) by (rule mult_pos_pos)
  then have p2: "0 < r2" unfolding r2_def by (rule round_to_positive [rotated]) simp
  then have p3: "0 < r3" unfolding r3_def by (rule round_to_positive [rotated]) simp
  then have "0 < r3 / 60" by simp
  then have p4: "0 < r4" unfolding r4_def by (rule round_to_positive [rotated]) simp
  then have p5: "0 < r5" unfolding r5_def by (rule round_to_positive [rotated]) simp
  have "rPerSecond rpm (Finite m) = Finite r5"
    by (simp add: rPerSecond_def int_to_float_def float_mul_def float_to_double_def
        double_div_literal_def double_to_float_def FLT_MANT_DIG_def DBL_MANT_DIG_def
        r1_def r2_def r3_def r4_def r5_def)
  with p5 show ?thesis by blast
qed

lemma rPerSecond_minus:
  "rPerSecond (- rpm) (Finite m) = Finite y \<longleftrightarrow> rPerSecond rpm (Finite m) = Finite (- y)"
  by (simp add: rPerSecond_def int_to_float_def float_mul_def float_to_double_def
      double_div_literal_def double_to_float_def round_to_minus) (metis add.inverse_inverse)

lemma rPerSecond_negative:
  assumes "rpm < 0" and "0 < m"
  shows "\<exists>x. rPerSecond rpm (Finite m) = Finite x \<and> x < 0"
proof -
  obtain y where y: "rPerSecond (- rpm) (Finite m) = Finite y" "0 < y"
    using rPerSecond_positive [of "- rpm" m] assms by auto
  have "rPerSecond (- (- rpm)) (Finite m) = Finite (- y)"
    using y(1) by (simp only: rPerSecond_minus) simp
  then show ?thesis using y(2) by simp
qed

lemma getRpmMultiplier_positive:
  assumes "2 \<le> SYMMETRICAL_CRANK_SENSOR_DIVIDER fw"
    and "2 \<le> SYMMETRICAL_THREE_TIMES_CRANK_SENSOR_DIVIDER fw"
    and "2 \<le> SYMMETRICAL_TWELVE_TIMES_CRANK_SENSOR_DIVIDER fw"
  shows "\<exists>m. getRpmMultiplier fw mode = Finite m \<and> 0 < m"
proof -
  have half: "0 < round_to 24 (of_int (c sdiv 2))" if "2 \<le> c" for c :: int
  proof -
    have "c sdiv 2 = c div 2"
      using that by (simp add: signed_divide_int_def sgn_if)
    then have "0 < c sdiv 2" using that by simp
    then show ?thesis by (intro round_to_positive) simp_all
  qed
  show ?thesis
  proof (cases mode)
    case FOUR_STROKE_THREE_TIMES_CRANK_SENSOR
    then show ?thesis
      using half [OF assms(2)] by (simp add: getRpmMultiplier_def int_to_float_def FLT_MANT_DIG_def)
  next
    case FOUR_STROKE_SYMMETRICAL_CRANK_SENSOR
    then show ?thesis
      using half [OF assms(1)] by (simp add: getRpmMultiplier_def int_to_float_def FLT_MANT_DIG_def)
  next
    case FOUR_STROKE_TWELVE_TIMES_CRANK_SENSOR
    then show ?thesis
      using half [OF assms(3)] by (simp add: getRpmMultiplier_def int_to_float_def FLT_MANT_DIG_def)
  next
    case FOUR_STROKE_CAM_SENSOR
    have "getRpmMultiplier fw FOUR_STROKE_CAM_SENSOR = Finite (1 / 2) \<and> (0::rat) < 1 / 2"
      by (simp add: getRpmMultiplier_eval)
    then show ?thesis unfolding FOUR_STROKE_CAM_SENSOR by (rule exI)
  next
    case FOUR_STROKE_CRANK_SENSOR
    have "getRpmMultiplier fw FOUR_STROKE_CRANK_SENSOR = Finite 1 \<and> (0::rat) < 1"
      by (simp add: getRpmMultiplier_eval)
    then show ?thesis unfolding FOUR_STROKE_CRANK_SENSOR by (rule exI)
  next
    case (OTHER_MODE k)
    have "getRpmMultiplier fw (OTHER_MODE k) = Finite 1 \<and> (0::rat) < 1"
      by (simp add: getRpmMultiplier_eval)
    then show ?thesis unfolding OTHER_MODE by (rule exI)
  qed
qed


text \<open>
  Claim C2. \<open>setTriggerEmulatorRPM\<close> calls \<^verbatim>\<open>setFrequency\<close> once: with NaN when the RPM
  is 0, and otherwise with \<^verbatim>\<open>rpm * multiplier / 60.0\<close> as the target computes it in
  floating point, a value within a relative error of \<open>2\<^sup>-\<^sup>2\<^sup>2\<close> of the exact quotient.
  The multiplier is 1 for the plain crank sensor mode, 0.5 for the cam sensor mode,
  the wheel constant divided by 2 (integer division, converted to \<^verbatim>\<open>float\<close>, exactly
  so below \<open>2\<^sup>2\<^sup>4\<close>) for the symmetrical crank variants, and 1 for any other mode.
  RPM 6000 with multiplier 1 gives exactly 100, RPM 3000 exactly 50.
\<close>

theorem setTriggerEmulatorRPM_frequency:
  "calls_since s (setTriggerEmulatorRPM fw rpm s)
     = [SetFrequency (if rpm = 0 then NaN
                      else rPerSecond rpm (getRpmMultiplier fw (operationMode s))),
        ResetEngineSnifferIfInTestMode]
   \<and> (\<exists>x. rPerSecond rpm (Finite m) = Finite x
          \<and> \<bar>x - of_int rpm * m / 60\<bar> \<le> \<bar>of_int rpm * m / 60\<bar> / 2 ^ 22)
   \<and> getRpmMultiplier fw FOUR_STROKE_CRANK_SENSOR = Finite 1
   \<and> getRpmMultiplier fw FOUR_STROKE_CAM_SENSOR = Finite (1 / 2)
   \<and> getRpmMultiplier fw FOUR_STROKE_THREE_TIMES_CRANK_SENSOR
       = int_to_float (SYMMETRICAL_THREE_TIMES_CRANK_SENSOR_DIVIDER fw sdiv 2)
   \<and> getRpmMultiplier fw FOUR_STROKE_TWELVE_TIMES_CRANK_SENSOR
       = int_to_float (SYMMETRICAL_TWELVE_TIMES_CRANK_SENSOR_DIVIDER fw sdiv 2)
   \<and> getRpmMultiplier fw FOUR_STROKE_SYMMETRICAL_CRANK_SENSOR
       = int_to_float (SYMMETRICAL_CRANK_SENSOR_DIVIDER fw sdiv 2)
   \<and> (\<bar>k\<bar> < 16777216 \<longrightarrow> int_to_float k = Finite (of_int k))
   \<and> getRpmMultiplier fw (OTHER_MODE n) = Finite 1
   \<and> rPerSecond 6000 (Finite 1) = Finite 100
   \<and> rPerSecond 3000 (Finite 1) = Finite 50"
proof -
  have modes:
    "getRpmMultiplier fw FOUR_STROKE_THREE_TIMES_CRANK_SENSOR
       = int_to_float (SYMMETRICAL_THREE_TIMES_CRANK_SENSOR_DIVIDER fw sdiv 2)"
    "getRpmMultiplier fw FOUR_STROKE_TWELVE_TIMES_CRANK_SENSOR
       = int_to_float (SYMMETRICAL_TWELVE_TIMES_CRANK_SENSOR_DIVIDER fw sdiv 2)"
    "getRpmMultiplier fw FOUR_STROKE_SYMMETRICAL_CRANK_SENSOR
       = int_to_float (SYMMETRICAL_CRANK_SENSOR_DIVIDER fw sdiv 2)"
    by (simp_all add: getRpmMultiplier_def)
  have exact: "\<bar>k\<bar> < 16777216 \<longrightarrow> int_to_float k = Finite (of_int k)"
    by (rule impI) (rule int_to_float_exact)
  from calls_since_setTriggerEmulatorRPM [of s fw rpm] rPerSecond_close [of rpm m]
    getRpmMultiplier_eval(1) [of fw] getRpmMultiplier_eval(2) [of fw] modes exact
    getRpmMultiplier_eval(3) [of fw n] rPerSecond_eval(1) rPerSecond_eval(2)
  show ?thesis by (intro conjI)
qed

lemma bench_fields:
  "operationMode bench_emulator = FOUR_STROKE_CRANK_SENSOR"
  "SYMMETRICAL_CRANK_SENSOR_DIVIDER bench_firmware = 4"
  "SYMMETRICAL_THREE_TIMES_CRANK_SENSOR_DIVIDER bench_firmware = 6"
  "SYMMETRICAL_TWELVE_TIMES_CRANK_SENSOR_DIVIDER bench_firmware = 24"
  by (simp_all add: bench_emulator_def bench_firmware_def)

theorem setTriggerEmulatorRPM_frequency_witness:
  "calls_since bench_emulator (setTriggerEmulatorRPM bench_firmware 6000 bench_emulator)
     = [SetFrequency (Finite 100), ResetEngineSnifferIfInTestMode]
   \<and> \<bar>3 :: int\<bar> < 16777216
   \<and> getRpmMultiplier bench_firmware FOUR_STROKE_THREE_TIMES_CRANK_SENSOR = Finite 3"
proof -
  have "(6::int) sdiv 2 = 3" by (simp add: signed_divide_int_def)
  then show ?thesis
    using setTriggerEmulatorRPM_frequency [of bench_emulator bench_firmware 6000 1 3 0]
    by (simp add: bench_fields)
qed

text \<open>
  Claim C4, as amended. With wheel constants of at least 2, the frequency that
  \<open>setTriggerEmulatorRPM\<close> sets is the undefined sentinel when the RPM is 0 and a
  positive number when the RPM is positive, so it is never negative for an RPM that
  is not negative. A negative RPM is not treated as undefined: it sets a negative
  frequency.
\<close>

theorem setTriggerEmulatorRPM_frequency_sign:
  assumes "2 \<le> SYMMETRICAL_CRANK_SENSOR_DIVIDER fw"
    and "2 \<le> SYMMETRICAL_THREE_TIMES_CRANK_SENSOR_DIVIDER fw"
    and "2 \<le> SYMMETRICAL_TWELVE_TIMES_CRANK_SENSOR_DIVIDER fw"
  shows "(rpm = 0 \<longrightarrow>
            frequency_of (calls_since s (setTriggerEmulatorRPM fw rpm s)) = Some NaN)
       \<and> (0 < rpm \<longrightarrow>
            (\<exists>x. frequency_of (calls_since s (setTriggerEmulatorRPM fw rpm s)) = Some (Finite x)
                 \<and> 0 < x))
       \<and> (rpm < 0 \<longrightarrow>
            (\<exists>x. frequency_of (calls_since s (setTriggerEmulatorRPM fw rpm s)) = Some (Finite x)
                 \<and> x < 0))"
proof -
  obtain m where m: "getRpmMultiplier fw (operationMode s) = Finite m" "0 < m"
    using getRpmMultiplier_positive [OF assms] by blast
  have f: "frequency_of (calls_since s (setTriggerEmulatorRPM fw rpm s))
           = Some (if rpm = 0 then NaN else rPerSecond rpm (Finite m))"
    by (simp add: calls_since_setTriggerEmulatorRPM m(1))
  show ?thesis
  proof (intro conjI impI)
    assume "rpm = 0"
    then show "frequency_of (calls_since s (setTriggerEmulatorRPM fw rpm s)) = Some NaN"
      using f by simp
  next
    assume "0 < rpm"
    then show "\<exists>x. frequency_of (calls_since s (setTriggerEmulatorRPM fw rpm s)) = Some (Finite x)
                 \<and> 0 < x"
      using f rPerSecond_positive [of rpm m] m(2) by auto
  next
    assume "rpm < 0"
    then show "\<exists>x. frequency_of (calls_since s (setTriggerEmulatorRPM fw rpm s)) = Some (Finite x)
                 \<and> x < 0"
      using f rPerSecond_negative [of rpm m] m(2) by auto
  qed
qed

theorem setTriggerEmulatorRPM_frequency_sign_witness:
  "2 \<le> SYMMETRICAL_CRANK_SENSOR_DIVIDER bench_firmware
   \<and> 2 \<le> SYMMETRICAL_THREE_TIMES_CRANK_SENSOR_DIVIDER bench_firmware
   \<and> 2 \<le> SYMMETRICAL_TWELVE_TIMES_CRANK_SENSOR_DIVIDER bench_firmware
   \<and> frequency_of (calls_since bench_emulator (setTriggerEmulatorRPM bench_firmware 0 bench_emulator))
       = Some NaN
   \<and> (\<exists>x. frequency_of (calls_since bench_emulator
                (setTriggerEmulatorRPM bench_firmware 6000 bench_emulator)) = Some (Finite x)
          \<and> 0 < x)
   \<and> (\<exists>x. frequency_of (calls_since bench_emulator
                (setTriggerEmulatorRPM bench_firmware (- 60) bench_emulator)) = Some (Finite x)
          \<and> x < 0)"
proof -
  have h: "2 \<le> SYMMETRICAL_CRANK_SENSOR_DIVIDER bench_firmware"
    "2 \<le> SYMMETRICAL_THREE_TIMES_CRANK_SENSOR_DIVIDER bench_firmware"
    "2 \<le> SYMMETRICAL_TWELVE_TIMES_CRANK_SENSOR_DIVIDER bench_firmware"
    by (simp_all add: bench_fields)
  show ?thesis
    using h setTriggerEmulatorRPM_frequency_sign [OF h, of 0 bench_emulator]
      setTriggerEmulatorRPM_frequency_sign [OF h, of 6000 bench_emulator]
      setTriggerEmulatorRPM_frequency_sign [OF h, of "- 60" bench_emulator]
    by simp
qed

text \<open>
  Claim C4 as stated fails for a negative RPM: in the plain crank sensor mode an RPM
  of \<open>-60\<close> sets the frequency \<open>-1\<close>, a negative number and not the undefined
  sentinel.
\<close>

theorem negative_rpm_frequency_counterexample:
  "frequency_of (calls_since bench_emulator
      (setTriggerEmulatorRPM bench_firmware (- 60) bench_emulator)) = Some (Finite (- 1))
   \<and> is_negative (Finite (- 1)) \<and> Finite (- 1) \<noteq> NaN"
  by (simp add: calls_since_setTriggerEmulatorRPM bench_fields getRpmMultiplier_eval
      rPerSecond_eval is_negative_def)

end
